theory Spec2Isabelle
  imports Main "HOL-Library.Multiset" "HOL-Library.AList"
begin

section \<open>Array.prototype.sort\<close>

text \<open>
  ECMAScript (since 2019) specifies \<open>Array.prototype.sort\<close> as a stable sort: the
  comparator \<open>cmp a b\<close> answers negative when \<open>a\<close> goes first, positive when \<open>b\<close> goes
  first, and zero keeps the two in their input order. For the consistent comparators of
  this program every stable sort returns the same list; it is modelled as insertion sort.
\<close>

fun insert_by :: "('a \<Rightarrow> 'a \<Rightarrow> int) \<Rightarrow> 'a \<Rightarrow> 'a list \<Rightarrow> 'a list" where
  "insert_by cmp x [] = [x]"
| "insert_by cmp x (y # ys) =
     (if cmp x y \<le> 0 then x # y # ys else y # insert_by cmp x ys)"

definition array_sort :: "('a \<Rightarrow> 'a \<Rightarrow> int) \<Rightarrow> 'a list \<Rightarrow> 'a list" where
  "array_sort cmp xs = foldr (insert_by cmp) xs []"

section \<open>The record extractor (index.js, parseQAMessages)\<close>

text \<open>
  The three texts read from one message card, each after \<open>.text().trim()\<close>: the sent
  time, the likes text and the body. Selecting the cards from the HTML is cheerio's work;
  the model starts from the selected cards in document order.
\<close>

record card =
  sentTime :: string
  likesText :: string
  wrappingtext :: string

text \<open>
  One extracted message. Numbers are modelled as unbounded naturals (JavaScript's
  doubles are exact below \<open>2 ^ 53\<close>).
\<close>

record qa_message =
  msg_id :: nat
  msg_timestamp :: string
  msg_message :: string
  msg_likes :: nat

record parse_result =
  totalMessages :: nat
  totalLikes :: nat
  messages :: "qa_message list"

definition is_digit :: "char \<Rightarrow> bool" where
  "is_digit c \<longleftrightarrow> 48 \<le> (of_char c :: nat) \<and> (of_char c :: nat) \<le> 57"

text \<open>\<open>likesText.match(/\d+/)\<close>: the first maximal run of digits, or no match.\<close>

definition match_digits :: "string \<Rightarrow> string option" where
  "match_digits s =
     (let run = takeWhile is_digit (dropWhile (\<lambda>c. \<not> is_digit c) s)
      in if run = [] then None else Some run)"

text \<open>\<open>parseInt(digits, 10)\<close> on a non-empty string of digits.\<close>

definition parseInt :: "string \<Rightarrow> nat" where
  "parseInt ds = foldl (\<lambda>n c. 10 * n + (of_char c - 48)) 0 ds"

definition likes_of_text :: "string \<Rightarrow> nat" where
  "likes_of_text s = (case match_digits s of Some ds \<Rightarrow> parseInt ds | None \<Rightarrow> 0)"

text \<open>The body of \<open>messageCards.each\<close>: one record is pushed per card.\<close>

definition scan_card :: "qa_message list \<Rightarrow> card \<Rightarrow> qa_message list" where
  "scan_card msgs c =
     msgs @ [\<lparr> msg_id = length msgs + 1,
               msg_timestamp = sentTime c,
               msg_message = wrappingtext c,
               msg_likes = likes_of_text (likesText c) \<rparr>]"

definition scan_cards :: "card list \<Rightarrow> qa_message list" where
  "scan_cards cards = foldl scan_card [] cards"

text \<open>\<open>msg.message || msg.timestamp\<close>: a string is truthy when it is not empty.\<close>

definition nonempty_message :: "qa_message \<Rightarrow> bool" where
  "nonempty_message m \<longleftrightarrow> msg_message m \<noteq> [] \<or> msg_timestamp m \<noteq> []"

definition cmp_likes_desc :: "qa_message \<Rightarrow> qa_message \<Rightarrow> int" where
  "cmp_likes_desc a b = int (msg_likes b) - int (msg_likes a)"

definition reassign_ids :: "qa_message list \<Rightarrow> qa_message list" where
  "reassign_ids ms = map (\<lambda>(idx, m). m\<lparr>msg_id := idx + 1\<rparr>) (enumerate 0 ms)"

definition parseQAMessages :: "card list \<Rightarrow> parse_result" where
  "parseQAMessages cards =
     (let msgs = scan_cards cards;
          filteredMessages = filter nonempty_message msgs;
          sortedMessages = array_sort cmp_likes_desc filteredMessages;
          numbered = reassign_ids sortedMessages
      in \<lparr> totalMessages = length numbered,
           totalLikes = sum_list (map msg_likes numbered),
           messages = numbered \<rparr>)"

text \<open>What a record says apart from its id, and the same for a card.\<close>

definition content :: "qa_message \<Rightarrow> string \<times> string \<times> nat" where
  "content m = (msg_timestamp m, msg_message m, msg_likes m)"

definition card_content :: "card \<Rightarrow> string \<times> string \<times> nat" where
  "card_content c = (sentTime c, wrappingtext c, likes_of_text (likesText c))"

definition both_empty :: "card \<Rightarrow> bool" where
  "both_empty c \<longleftrightarrow> wrappingtext c = [] \<and> sentTime c = []"

section \<open>The board store (useKanbanData)\<close>

subsection \<open>Values, records and columns\<close>

text \<open>
  The JavaScript values a \<open>likes\<close> property can hold; a missing property reads as
  \<open>JUndefined\<close>. Numbers are modelled as integers.
\<close>

datatype jsval = JUndefined | JNull | JBool bool | JNum int | JStr string

text \<open>
  A message object as the board holds it. \<open>item_sentiment\<close> is \<open>None\<close> while the object
  has no sentiment (the property is missing or \<open>undefined\<close>).
\<close>

record message =
  item_id :: nat
  item_timestamp :: string
  item_message :: string
  item_likes :: jsval
  item_sentiment :: "string option"

text \<open>An element of an items array: a message object, \<open>null\<close> or \<open>undefined\<close>.\<close>

datatype item = Undefined | Null | Obj message

record column =
  col_id :: string
  title :: string
  items :: "item list"

text \<open>
  The \<open>columns\<close> object: its own properties in enumeration order (the order of
  \<open>Object.keys\<close> and \<open>Object.values\<close>), each key once.
\<close>

type_synonym board = "(string \<times> column) list"

datatype error = TypeError

text \<open>
  Reading \<open>obj[k]\<close> on a plain object finds an own property, or else a property that
  every object inherits from \<open>Object.prototype\<close> (a function or the prototype object:
  truthy, and without an \<open>items\<close> property), or else \<open>undefined\<close>.
\<close>

datatype 'a property = Own 'a | Inherited | Absent

definition object_prototype_names :: "string list" where
  "object_prototype_names =
     [''constructor'', ''__defineGetter__'', ''__defineSetter__'', ''hasOwnProperty'',
      ''__lookupGetter__'', ''__lookupSetter__'', ''isPrototypeOf'',
      ''propertyIsEnumerable'', ''toString'', ''valueOf'', ''__proto__'',
      ''toLocaleString'']"

definition get_property :: "(string \<times> 'a) list \<Rightarrow> string \<Rightarrow> 'a property" where
  "get_property obj k =
     (case map_of obj k of
        Some v \<Rightarrow> Own v
      | None \<Rightarrow> if k \<in> set object_prototype_names then Inherited else Absent)"

fun truthy :: "'a property \<Rightarrow> bool" where
  "truthy (Own v) = True"
| "truthy Inherited = True"
| "truthy Absent = False"

subsection \<open>sortByLikes and sortAllColumnsByLikes\<close>

fun typeof :: "jsval \<Rightarrow> string" where
  "typeof JUndefined = ''undefined''"
| "typeof JNull = ''object''"
| "typeof (JBool b) = ''boolean''"
| "typeof (JNum n) = ''number''"
| "typeof (JStr s) = ''string''"

text \<open>\<open>a?.likes\<close>: \<open>undefined\<close> when \<open>a\<close> is \<open>null\<close> or \<open>undefined\<close>.\<close>

fun optional_likes :: "item \<Rightarrow> jsval" where
  "optional_likes Undefined = JUndefined"
| "optional_likes Null = JUndefined"
| "optional_likes (Obj m) = item_likes m"

text \<open>\<open>typeof a?.likes === 'number' ? a.likes : 0\<close>\<close>

definition likes_or_zero :: "item \<Rightarrow> int" where
  "likes_or_zero a =
     (if typeof (optional_likes a) = ''number''
      then (case optional_likes a of JNum n \<Rightarrow> n | _ \<Rightarrow> 0)
      else 0)"

definition compare_likes :: "item \<Rightarrow> item \<Rightarrow> int" where
  "compare_likes a b = likes_or_zero b - likes_or_zero a"

text \<open>
  The engine compares two array elements with the comparator only when neither is
  \<open>undefined\<close>; an \<open>undefined\<close> element goes after every other element.
\<close>

definition compare_elements :: "(item \<Rightarrow> item \<Rightarrow> int) \<Rightarrow> item \<Rightarrow> item \<Rightarrow> int" where
  "compare_elements cmp x y =
     (if x = Undefined \<and> y = Undefined then 0
      else if x = Undefined then 1
      else if y = Undefined then - 1
      else cmp x y)"

text \<open>An argument that is an array of items, or any other value.\<close>

datatype arg = NonArray | Array "item list"

fun sortByLikes :: "arg \<Rightarrow> item list" where
  "sortByLikes NonArray = []"
| "sortByLikes (Array xs) = array_sort (compare_elements compare_likes) xs"

definition sortAllColumnsByLikes :: "board \<Rightarrow> board" where
  "sortAllColumnsByLikes cols =
     map (\<lambda>(key, col). (key, col\<lparr>items := sortByLikes (Array (items col))\<rparr>)) cols"

subsection \<open>State of the hook\<close>

definition STORAGE_KEY :: string where
  "STORAGE_KEY = ''vevox-kanban-data''"

definition RAW_DATA_KEY :: string where
  "RAW_DATA_KEY = ''vevox-raw-data''"

datatype stored = StoredBoard board "string list" | StoredRaw "item list"

text \<open>
  The four state variables of the hook, and the calls of \<open>localStorage.setItem\<close> made
  so far (oldest first).
\<close>

record state =
  columns :: board
  columnOrder :: "string list"
  loading :: bool
  rawData :: "item list"
  setItem_calls :: "(string \<times> stored) list"

definition initial_uncategorized :: column where
  "initial_uncategorized = \<lparr>col_id = ''uncategorized'', title = ''Uncategorized'', items = []\<rparr>"

definition initial_columns :: board where
  "initial_columns =
     [(''uncategorized'', initial_uncategorized),
      (''ui_ux'', \<lparr>col_id = ''ui_ux'', title = ''UI/UX'', items = []\<rparr>),
      (''library'', \<lparr>col_id = ''library'', title = ''Library'', items = []\<rparr>),
      (''ai'', \<lparr>col_id = ''ai'', title = ''AI'', items = []\<rparr>),
      (''headless'', \<lparr>col_id = ''headless'', title = ''Headless UI'', items = []\<rparr>)]"

definition initial_columnOrder :: "string list" where
  "initial_columnOrder = [''uncategorized'', ''ui_ux'', ''library'', ''ai'', ''headless'']"

definition initial_state :: state where
  "initial_state =
     \<lparr> columns = initial_columns, columnOrder = initial_columnOrder, loading = True,
       rawData = [], setItem_calls = [] \<rparr>"

text \<open>
  The effect that saves the board: once loading is over, every change of \<open>columns\<close> or
  \<open>columnOrder\<close> is written under the storage key.
\<close>

definition saveEffect :: "state \<Rightarrow> state" where
  "saveEffect st =
     (if \<not> loading st
      then st\<lparr>setItem_calls :=
                setItem_calls st @ [(STORAGE_KEY, StoredBoard (columns st) (columnOrder st))]\<rparr>
      else st)"

subsection \<open>loadData\<close>

text \<open>
  What \<open>JSON.parse\<close> returns for the saved board: \<open>saved_columns\<close> is \<open>None\<close> when the
  parsed object has no \<open>columns\<close>. The effect runs once, on mount, so the \<open>prev\<close> of its
  state update is the initial state.
\<close>

record saved_board =
  saved_columns :: "board option"
  saved_columnOrder :: "string list"

definition loadData :: "item list option \<Rightarrow> saved_board option \<Rightarrow> state" where
  "loadData savedRawData savedData =
     (let st1 = (case savedRawData of
                   Some raw \<Rightarrow> initial_state\<lparr>rawData := raw\<rparr>
                 | None \<Rightarrow> initial_state);
          st2 = (case savedData of
                   None \<Rightarrow> st1
                 | Some parsed \<Rightarrow>
                     (case saved_columns parsed of
                        None \<Rightarrow> st1
                      | Some cols \<Rightarrow>
                          if truthy (get_property cols ''ui_ux'')
                          then st1\<lparr>columns := sortAllColumnsByLikes cols,
                                   columnOrder := saved_columnOrder parsed\<rparr>
                          else
                            (let allItems = concat (map (\<lambda>(key, c). items c) cols)
                             in st1\<lparr>columns := sortAllColumnsByLikes
                                  (AList.update ''uncategorized''
                                     (initial_uncategorized\<lparr>items := allItems\<rparr>)
                                     (columns st1))\<rparr>)))
      in st2\<lparr>loading := False\<rparr>)"

subsection \<open>moveCard\<close>

record location =
  droppableId :: string
  index :: int

text \<open>
  \<open>splice(start, \<dots>)\<close> on an array of length \<open>len\<close> starts at \<open>len + start\<close> (not below
  0) for a negative \<open>start\<close> and at \<open>start\<close> (not above \<open>len\<close>) otherwise.
\<close>

definition splice_start :: "nat \<Rightarrow> int \<Rightarrow> nat" where
  "splice_start len start =
     (if start < 0 then nat (max (int len + start) 0) else min (nat start) len)"

text \<open>
  \<open>const [removed] = xs.splice(start, 1)\<close>: the removed element, \<open>undefined\<close> when
  nothing was removed, and what is left of the array.
\<close>

definition splice_remove :: "item list \<Rightarrow> int \<Rightarrow> item \<times> item list" where
  "splice_remove xs start =
     (let k = splice_start (length xs) start
      in if k < length xs then (xs ! k, take k xs @ drop (Suc k) xs) else (Undefined, xs))"

text \<open>\<open>xs.splice(start, 0, x)\<close>\<close>

definition splice_insert :: "item list \<Rightarrow> int \<Rightarrow> item \<Rightarrow> item list" where
  "splice_insert xs start x =
     (let k = splice_start (length xs) start in take k xs @ x # drop k xs)"

text \<open>
  \<open>Inr\<close> carries the value of \<open>columns\<close> after the call: the argument of \<open>setColumns\<close>, or
  the old value after an early return. \<open>Inl\<close> is an exception, thrown before any state
  is touched. When both ids name the same column, \<open>sourceItems\<close> and \<open>destItems\<close> are one
  array, and the second computed key of the object literal overwrites the first.
\<close>

definition moveCard :: "location \<Rightarrow> location option \<Rightarrow> board \<Rightarrow> error + board" where
  "moveCard source destination cols =
     (case destination of
        None \<Rightarrow> Inr cols
      | Some dest \<Rightarrow>
          if droppableId source = droppableId dest \<and> index source = index dest then Inr cols
          else
            (let sourceColumn = get_property cols (droppableId source);
                 destColumn = get_property cols (droppableId dest)
             in if \<not> truthy sourceColumn \<or> \<not> truthy destColumn then Inr cols
                else
                  (case (sourceColumn, destColumn) of
                     (Own sc, Own dc) \<Rightarrow>
                       (let same = (droppableId source = droppableId dest);
                            (removed, sourceItems) = splice_remove (items sc) (index source);
                            destItems = splice_insert (if same then sourceItems else items dc)
                                          (index dest) removed;
                            sortedDestItems = sortByLikes (Array destItems)
                        in Inr (AList.update (droppableId dest) (dc\<lparr>items := sortedDestItems\<rparr>)
                                 (AList.update (droppableId source)
                                    (sc\<lparr>items := (if same then destItems else sourceItems)\<rparr>)
                                    cols)))
                   | _ \<Rightarrow> Inl TypeError)))"

subsection \<open>updateCategoryForIds\<close>

text \<open>One entry of the classification result; a field is \<open>None\<close> when it is missing.\<close>

record classification =
  category :: "string option"
  sentiment :: "string option"

text \<open>
  The classification result, read at a record's id: \<open>None\<close> when there is no entry or the
  entry is falsy.
\<close>

type_synonym classification_result = "nat \<Rightarrow> classification option"

text \<open>\<open>toLowerCase\<close> on the ASCII letters.\<close>

definition lower_char :: "char \<Rightarrow> char" where
  "lower_char c =
     (let n = (of_char c :: nat) in if 65 \<le> n \<and> n \<le> 90 then char_of (n + 32) else c)"

definition toLowerCase :: "string \<Rightarrow> string" where
  "toLowerCase s = map lower_char s"

text \<open>
  \<open>result.category ? result.category.toLowerCase() : 'uncategorized'\<close>, kept when
  \<open>newColumns[assignedCat]\<close> is truthy.
\<close>

definition target_of :: "board \<Rightarrow> classification \<Rightarrow> string" where
  "target_of newColumns result =
     (let assignedCat = (case category result of
                           Some c \<Rightarrow> if c \<noteq> [] then toLowerCase c else ''uncategorized''
                         | None \<Rightarrow> ''uncategorized'')
      in if truthy (get_property newColumns assignedCat) then assignedCat
         else ''uncategorized'')"

text \<open>
  The body of \<open>allItems.forEach\<close> on a message object \<open>m\<close>: the object after the
  sentiment assignment, and the value of \<open>targetCat\<close> at the push.
\<close>

definition assign_sentiment :: "classification_result \<Rightarrow> message \<Rightarrow> message" where
  "assign_sentiment classificationResult m =
     (case classificationResult (item_id m) of
        None \<Rightarrow> m
      | Some result \<Rightarrow> m\<lparr>item_sentiment := sentiment result\<rparr>)"

definition targetCat :: "classification_result \<Rightarrow> board \<Rightarrow> message \<Rightarrow> string" where
  "targetCat classificationResult newColumns m =
     (case classificationResult (item_id m) of
        None \<Rightarrow> ''uncategorized''
      | Some result \<Rightarrow> target_of newColumns result)"

text \<open>
  The loop pushes each item onto its target column. The column objects are those of the
  current state (\<open>newColumns\<close> is a shallow copy), so when a step throws, the items
  already cleared and pushed stay as they are: \<open>Inl\<close> carries them with the error.
  Reading \<open>item.id\<close> throws on \<open>null\<close> and \<open>undefined\<close>; \<open>newColumns[targetCat].items.push\<close>
  throws when the target is not an own column.
\<close>

fun push_items :: "classification_result \<Rightarrow> item list \<Rightarrow> board \<Rightarrow> (error \<times> board) + board" where
  "push_items classificationResult [] newColumns = Inr newColumns"
| "push_items classificationResult (Obj m # rest) newColumns =
     (case get_property newColumns (targetCat classificationResult newColumns m) of
        Own col \<Rightarrow>
          push_items classificationResult rest
            (AList.update (targetCat classificationResult newColumns m)
               (col\<lparr>items := items col @ [Obj (assign_sentiment classificationResult m)]\<rparr>)
               newColumns)
      | _ \<Rightarrow> Inl (TypeError, newColumns))"
| "push_items classificationResult (_ # rest) newColumns = Inl (TypeError, newColumns)"

definition all_items :: "board \<Rightarrow> item list" where
  "all_items cols = concat (map (\<lambda>(key, col). items col) cols)"

definition clear_columns :: "board \<Rightarrow> board" where
  "clear_columns cols = map (\<lambda>(key, col). (key, col\<lparr>items := []\<rparr>)) cols"

text \<open>
  \<open>Inr\<close> carries the argument of \<open>setColumns\<close>; \<open>Inl\<close> the exception and the columns as
  the interrupted loop left them.
\<close>

definition updateCategoryForIds :: "classification_result \<Rightarrow> board \<Rightarrow> (error \<times> board) + board" where
  "updateCategoryForIds classificationResult cols =
     (case push_items classificationResult (all_items cols) (clear_columns cols) of
        Inl failure \<Rightarrow> Inl failure
      | Inr newColumns \<Rightarrow> Inr (sortAllColumnsByLikes newColumns))"

subsection \<open>addMessages\<close>

text \<open>
  \<open>Inl\<close> is the exception of reading \<open>prev['uncategorized'].items\<close> when the board has no
  such column.
\<close>

definition addMessages :: "arg \<Rightarrow> state \<Rightarrow> error + state" where
  "addMessages msgs st =
     (case msgs of
        NonArray \<Rightarrow> Inr st
      | Array ms \<Rightarrow>
          if ms = [] then Inr st
          else
            (let newRawData = rawData st @ ms;
                 st1 = st\<lparr>rawData := newRawData,
                          setItem_calls := setItem_calls st @ [(RAW_DATA_KEY, StoredRaw newRawData)]\<rparr>
             in case get_property (columns st1) ''uncategorized'' of
                  Own unc \<Rightarrow>
                    Inr (st1\<lparr>columns :=
                           AList.update ''uncategorized''
                             (unc\<lparr>items := sortByLikes (Array (items unc @ ms))\<rparr>)
                             (columns st1)\<rparr>)
                | _ \<Rightarrow> Inl TypeError))"

subsection \<open>Properties of a board\<close>

definition has_own_keys :: "board \<Rightarrow> bool" where
  "has_own_keys cols \<longleftrightarrow> distinct (map fst cols)"

definition is_defined :: "item \<Rightarrow> bool" where
  "is_defined x \<longleftrightarrow> x \<noteq> Undefined"

fun is_object :: "item \<Rightarrow> bool" where
  "is_object (Obj m) = True"
| "is_object _ = False"

text \<open>The ids of the message objects of a list of items, and of a whole board.\<close>

fun id_of :: "item \<Rightarrow> nat option" where
  "id_of (Obj m) = Some (item_id m)"
| "id_of _ = None"

definition ids_of :: "item list \<Rightarrow> nat list" where
  "ids_of xs = List.map_filter id_of xs"

definition board_ids :: "board \<Rightarrow> nat list" where
  "board_ids cols = ids_of (all_items cols)"

text \<open>Every id of the board occurs in one column only, and once there.\<close>

definition ids_unique :: "board \<Rightarrow> bool" where
  "ids_unique cols \<longleftrightarrow> distinct (board_ids cols)"

text \<open>
  A list of items is in likes order when the likes used by the sort never increase
  along its defined elements.
\<close>

definition likes_sorted :: "item list \<Rightarrow> bool" where
  "likes_sorted xs \<longleftrightarrow> sorted_wrt (\<lambda>a b. likes_or_zero b \<le> likes_or_zero a) (filter is_defined xs)"

definition board_sorted :: "board \<Rightarrow> bool" where
  "board_sorted cols \<longleftrightarrow> list_all (\<lambda>(key, col). likes_sorted (items col)) cols"

text \<open>The defined elements of \<open>xs\<close> with likes \<open>k\<close>, in their order in \<open>xs\<close>.\<close>

definition ties :: "int \<Rightarrow> item list \<Rightarrow> item list" where
  "ties k xs = filter (\<lambda>x. is_defined x \<and> likes_or_zero x = k) xs"

text \<open>An item after the sentiment assignment of a classification pass.\<close>

fun reclassified :: "classification_result \<Rightarrow> item \<Rightarrow> item" where
  "reclassified cls (Obj m) = Obj (assign_sentiment cls m)"
| "reclassified cls x = x"

text \<open>
  The items a classification pass pushes onto the column \<open>key\<close>, in the order of the
  gathered items \<open>xs\<close>.
\<close>

fun routed :: "classification_result \<Rightarrow> board \<Rightarrow> string \<Rightarrow> item list \<Rightarrow> item list" where
  "routed cls cols key [] = []"
| "routed cls cols key (Obj m # xs) =
     (if targetCat cls cols m = key then Obj (assign_sentiment cls m) # routed cls cols key xs
      else routed cls cols key xs)"
| "routed cls cols key (x # xs) = routed cls cols key xs"

subsection \<open>Example data\<close>

definition demo :: "nat \<Rightarrow> jsval \<Rightarrow> string option \<Rightarrow> item" where
  "demo i l s =
     Obj \<lparr> item_id = i, item_timestamp = ''09 December 2025 19:07'', item_message = ''hello'',
           item_likes = l, item_sentiment = s \<rparr>"

text \<open>The initial board with the given items in three of its columns.\<close>

definition demo_board :: "item list \<Rightarrow> item list \<Rightarrow> item list \<Rightarrow> board" where
  "demo_board unc lib ai =
     [(''uncategorized'', initial_uncategorized\<lparr>items := unc\<rparr>),
      (''ui_ux'', \<lparr>col_id = ''ui_ux'', title = ''UI/UX'', items = []\<rparr>),
      (''library'', \<lparr>col_id = ''library'', title = ''Library'', items = lib\<rparr>),
      (''ai'', \<lparr>col_id = ''ai'', title = ''AI'', items = ai\<rparr>),
      (''headless'', \<lparr>col_id = ''headless'', title = ''Headless UI'', items = []\<rparr>)]"

section \<open>Facts about the sort\<close>

lemma insert_by_insort_key:
  assumes "\<And>a b. cmp a b = key b - key a"
  shows "insert_by cmp x ys = insort_key (\<lambda>y. - key y) x ys"
  by (induction ys) (simp_all add: assms)

lemma array_sort_sort_key:
  assumes "\<And>a b. cmp a b = key b - key a"
  shows "array_sort cmp xs = sort_key (\<lambda>y. - key y) xs"
proof -
  have "insert_by cmp = insort_key (\<lambda>y. - key y)"
    by (intro ext) (rule insert_by_insort_key [OF assms])
  then show ?thesis
    by (simp add: array_sort_def sort_key_def)
qed

lemma sorted_desc_sort_key:
  fixes key :: "'a \<Rightarrow> int"
  shows "sorted_wrt (\<lambda>a b. key b \<le> key a) (sort_key (\<lambda>y. - key y) xs)"
proof -
  have "sorted (map (\<lambda>y. - key y) (sort_key (\<lambda>y. - key y) xs))"
    by (rule sorted_sort_key)
  then show ?thesis
    by (simp add: sorted_map)
qed

lemma stable_desc_sort_key:
  fixes key :: "'a \<Rightarrow> int"
  shows "filter (\<lambda>y. key y = k) (sort_key (\<lambda>y. - key y) xs) = filter (\<lambda>y. key y = k) xs"
proof -
  have "filter (\<lambda>y. - key y = - k) (sort_key (\<lambda>y. - key y) xs) = filter (\<lambda>y. - key y = - k) xs"
    by (rule sort_key_stable)
  then show ?thesis by simp
qed

section \<open>Facts about the extractor\<close>

lemma content_scan_acc:
  "map content (foldl scan_card acc cards) = map content acc @ map card_content cards"
  by (induction cards arbitrary: acc) (simp_all add: scan_card_def content_def card_content_def)

lemma content_scan_cards: "map content (scan_cards cards) = map card_content cards"
  by (simp add: scan_cards_def content_scan_acc)

lemma content_filter_nonempty:
  "map content (filter nonempty_message ms) =
   filter (\<lambda>(t, b, l). b \<noteq> [] \<or> t \<noteq> []) (map content ms)"
  by (induction ms) (simp_all add: nonempty_message_def content_def)

lemma card_content_filter:
  "filter (\<lambda>(t, b, l). b \<noteq> [] \<or> t \<noteq> []) (map card_content cards) =
   map card_content (filter (\<lambda>c. \<not> both_empty c) cards)"
  by (induction cards) (simp_all add: card_content_def both_empty_def)

lemma content_filtered:
  "map content (filter nonempty_message (scan_cards cards)) =
   map card_content (filter (\<lambda>c. \<not> both_empty c) cards)"
  by (simp only: content_filter_nonempty content_scan_cards card_content_filter)

lemma content_reassign_ids: "map content (reassign_ids ms) = map content ms"
  unfolding reassign_ids_def
  by (induction ms rule: rev_induct)
     (simp_all add: enumerate_append_eq content_def)

lemma length_reassign_ids: "length (reassign_ids ms) = length ms"
  by (simp add: reassign_ids_def)

lemma ids_reassign_ids: "map msg_id (reassign_ids ms) = [1..<Suc (length ms)]"
  unfolding reassign_ids_def
  by (induction ms rule: rev_induct) (simp_all add: enumerate_append_eq)

lemma likes_reassign_ids: "map msg_likes (reassign_ids ms) = map msg_likes ms"
  unfolding reassign_ids_def
  by (induction ms rule: rev_induct) (simp_all add: enumerate_append_eq)

lemma array_sort_cmp_likes_desc:
  "array_sort cmp_likes_desc ms = sort_key (\<lambda>m. - int (msg_likes m)) ms"
  by (rule array_sort_sort_key) (simp add: cmp_likes_desc_def)

section \<open>Extraction: what is kept, and in which order\<close>

lemma messages_parseQAMessages:
  "messages (parseQAMessages cards) =
   reassign_ids (array_sort cmp_likes_desc (filter nonempty_message (scan_cards cards)))"
  by (simp add: parseQAMessages_def Let_def)

lemma content_messages_mset:
  "mset (map content (messages (parseQAMessages cards))) =
   mset (map card_content (filter (\<lambda>c. \<not> both_empty c) cards))"
proof -
  have "mset (map content (messages (parseQAMessages cards))) =
        mset (map content (filter nonempty_message (scan_cards cards)))"
    by (simp add: messages_parseQAMessages content_reassign_ids array_sort_cmp_likes_desc)
  then show ?thesis
    by (simp only: content_filtered)
qed

lemma both_empty_card_content:
  "card_content c = card_content c' \<Longrightarrow> both_empty c = both_empty c'"
  by (simp add: card_content_def both_empty_def)

lemma totalMessages_parseQAMessages:
  "totalMessages (parseQAMessages cards) = length (filter (\<lambda>c. \<not> both_empty c) cards)"
proof -
  have "totalMessages (parseQAMessages cards) = length (messages (parseQAMessages cards))"
    by (simp add: parseQAMessages_def Let_def)
  also have "\<dots> = size (mset (map content (messages (parseQAMessages cards))))"
    by simp
  also have "\<dots> = length (filter (\<lambda>c. \<not> both_empty c) cards)"
    by (simp only: content_messages_mset size_mset length_map)
  finally show ?thesis .
qed

text \<open>
  Claim C8. Extraction drops a scanned card exactly when both its body text and its
  timestamp are empty: apart from the ids, the extracted messages are the cards that have
  a body or a timestamp, each as often as it was scanned; their number is
  \<open>totalMessages\<close>; and a scanned card is found among the extracted messages if and
  only if its two texts are not both empty.
\<close>

theorem extraction_drops_iff_both_empty:
  "mset (map content (messages (parseQAMessages cards))) =
     mset (map card_content (filter (\<lambda>c. \<not> both_empty c) cards))
   \<and> totalMessages (parseQAMessages cards) = length (filter (\<lambda>c. \<not> both_empty c) cards)
   \<and> (\<forall>c \<in> set cards.
        card_content c \<in> set (map content (messages (parseQAMessages cards)))
          \<longleftrightarrow> \<not> both_empty c)"
proof (intro conjI ballI)
  show "mset (map content (messages (parseQAMessages cards))) =
        mset (map card_content (filter (\<lambda>c. \<not> both_empty c) cards))"
    by (rule content_messages_mset)
  show "totalMessages (parseQAMessages cards) = length (filter (\<lambda>c. \<not> both_empty c) cards)"
    by (rule totalMessages_parseQAMessages)
next
  fix c assume c: "c \<in> set cards"
  have "set (map content (messages (parseQAMessages cards))) =
        set (map card_content (filter (\<lambda>c. \<not> both_empty c) cards))"
    using content_messages_mset [of cards] by (rule mset_eq_setD)
  then have eq: "set (map content (messages (parseQAMessages cards))) =
        card_content ` {c \<in> set cards. \<not> both_empty c}"
    by simp
  show "card_content c \<in> set (map content (messages (parseQAMessages cards)))
          \<longleftrightarrow> \<not> both_empty c"
  proof
    assume "card_content c \<in> set (map content (messages (parseQAMessages cards)))"
    then obtain c' where "c' \<in> set cards" "\<not> both_empty c'" "card_content c = card_content c'"
      unfolding eq by blast
    then show "\<not> both_empty c"
      using both_empty_card_content by blast
  next
    assume "\<not> both_empty c"
    with c show "card_content c \<in> set (map content (messages (parseQAMessages cards)))"
      unfolding eq by blast
  qed
qed

theorem extraction_drops_iff_both_empty_witness:
  "card_content \<lparr>sentTime = ''19:07'', likesText = ''3'', wrappingtext = []\<rparr>
     \<in> set (map content (messages (parseQAMessages
          [\<lparr>sentTime = [], likesText = ''7'', wrappingtext = []\<rparr>,
           \<lparr>sentTime = ''19:07'', likesText = ''3'', wrappingtext = []\<rparr>,
           \<lparr>sentTime = [], likesText = [], wrappingtext = ''hello''\<rparr>])))
   \<and> card_content \<lparr>sentTime = [], likesText = [], wrappingtext = ''hello''\<rparr>
     \<in> set (map content (messages (parseQAMessages
          [\<lparr>sentTime = [], likesText = ''7'', wrappingtext = []\<rparr>,
           \<lparr>sentTime = ''19:07'', likesText = ''3'', wrappingtext = []\<rparr>,
           \<lparr>sentTime = [], likesText = [], wrappingtext = ''hello''\<rparr>])))
   \<and> card_content \<lparr>sentTime = [], likesText = ''7'', wrappingtext = []\<rparr>
     \<notin> set (map content (messages (parseQAMessages
          [\<lparr>sentTime = [], likesText = ''7'', wrappingtext = []\<rparr>,
           \<lparr>sentTime = ''19:07'', likesText = ''3'', wrappingtext = []\<rparr>,
           \<lparr>sentTime = [], likesText = [], wrappingtext = ''hello''\<rparr>])))"
  using extraction_drops_iff_both_empty
    [of "[\<lparr>sentTime = [], likesText = ''7'', wrappingtext = []\<rparr>,
           \<lparr>sentTime = ''19:07'', likesText = ''3'', wrappingtext = []\<rparr>,
           \<lparr>sentTime = [], likesText = [], wrappingtext = ''hello''\<rparr>]"]
  by (simp add: both_empty_def)

lemma likes_messages:
  "map msg_likes (messages (parseQAMessages cards)) =
   map msg_likes (sort_key (\<lambda>m. - int (msg_likes m)) (filter nonempty_message (scan_cards cards)))"
  by (simp add: messages_parseQAMessages likes_reassign_ids array_sort_cmp_likes_desc)

lemma sorted_messages:
  "sorted_wrt (\<lambda>a b. msg_likes b \<le> msg_likes a) (messages (parseQAMessages cards))"
proof -
  let ?S = "sort_key (\<lambda>m. - int (msg_likes m)) (filter nonempty_message (scan_cards cards))"
  have "sorted_wrt (\<lambda>a b. int (msg_likes b) \<le> int (msg_likes a)) ?S"
    by (rule sorted_desc_sort_key)
  then have "sorted_wrt (\<lambda>x y. y \<le> x) (map msg_likes ?S)"
    by (simp add: sorted_wrt_map)
  then have "sorted_wrt (\<lambda>x y. y \<le> x) (map msg_likes (messages (parseQAMessages cards)))"
    by (simp only: likes_messages)
  then show ?thesis
    by (simp add: sorted_wrt_map)
qed

lemma filter_likes_content:
  "filter (\<lambda>x. snd (snd x) = k) (map content ms) = map content (filter (\<lambda>m. msg_likes m = k) ms)"
  by (induction ms) (simp_all add: content_def)

lemma stable_messages:
  "filter (\<lambda>x. snd (snd x) = k) (map content (messages (parseQAMessages cards))) =
   filter (\<lambda>x. snd (snd x) = k) (map card_content (filter (\<lambda>c. \<not> both_empty c) cards))"
proof -
  let ?kept = "filter nonempty_message (scan_cards cards)"
  let ?S = "sort_key (\<lambda>m. - int (msg_likes m)) ?kept"
  have "filter (\<lambda>m. int (msg_likes m) = int k) ?S = filter (\<lambda>m. int (msg_likes m) = int k) ?kept"
    by (rule stable_desc_sort_key)
  then have st: "filter (\<lambda>m. msg_likes m = k) ?S = filter (\<lambda>m. msg_likes m = k) ?kept"
    by simp
  have "map content (messages (parseQAMessages cards)) = map content ?S"
    by (simp add: messages_parseQAMessages content_reassign_ids array_sort_cmp_likes_desc)
  then have "filter (\<lambda>x. snd (snd x) = k) (map content (messages (parseQAMessages cards))) =
        map content (filter (\<lambda>m. msg_likes m = k) ?S)"
    by (simp only: filter_likes_content)
  also have "\<dots> = filter (\<lambda>x. snd (snd x) = k) (map content ?kept)"
    by (simp only: st filter_likes_content)
  finally show ?thesis
    by (simp only: content_filtered)
qed

lemma ids_messages:
  "map msg_id (messages (parseQAMessages cards)) = [1..<Suc (totalMessages (parseQAMessages cards))]"
  by (simp add: parseQAMessages_def Let_def ids_reassign_ids length_reassign_ids)

lemma scenario_messages:
  "parseQAMessages
     [\<lparr>sentTime = ''09 December 2025 19:05'', likesText = ''2'', wrappingtext = ''a''\<rparr>,
      \<lparr>sentTime = ''09 December 2025 19:06'', likesText = ''10'', wrappingtext = ''b''\<rparr>,
      \<lparr>sentTime = ''09 December 2025 19:07'', likesText = ''10'', wrappingtext = ''c''\<rparr>] =
   \<lparr> totalMessages = 3, totalLikes = 22,
     messages =
       [\<lparr>msg_id = 1, msg_timestamp = ''09 December 2025 19:06'', msg_message = ''b'', msg_likes = 10\<rparr>,
        \<lparr>msg_id = 2, msg_timestamp = ''09 December 2025 19:07'', msg_message = ''c'', msg_likes = 10\<rparr>,
        \<lparr>msg_id = 3, msg_timestamp = ''09 December 2025 19:05'', msg_message = ''a'', msg_likes = 2\<rparr>] \<rparr>"
  by code_simp

text \<open>
  Claim C5. The extracted messages are in descending order of likes; for every like count
  the messages with that count are in the order of their cards in the document (the sort
  is stable); the ids are \<open>1, 2, \<dots>\<close> in the order of the result; and three cards
  with likes 2, 10, 10 and texts a, b, c come out as b, c, a with ids 1, 2, 3.
\<close>

theorem extraction_sorted_stable_ranked:
  "sorted_wrt (\<lambda>a b. msg_likes b \<le> msg_likes a) (messages (parseQAMessages cards))
   \<and> (\<forall>k. filter (\<lambda>x. snd (snd x) = k) (map content (messages (parseQAMessages cards))) =
           filter (\<lambda>x. snd (snd x) = k)
             (map card_content (filter (\<lambda>c. \<not> both_empty c) cards)))
   \<and> map msg_id (messages (parseQAMessages cards)) =
       [1..<Suc (totalMessages (parseQAMessages cards))]
   \<and> parseQAMessages
       [\<lparr>sentTime = ''09 December 2025 19:05'', likesText = ''2'', wrappingtext = ''a''\<rparr>,
        \<lparr>sentTime = ''09 December 2025 19:06'', likesText = ''10'', wrappingtext = ''b''\<rparr>,
        \<lparr>sentTime = ''09 December 2025 19:07'', likesText = ''10'', wrappingtext = ''c''\<rparr>] =
      \<lparr> totalMessages = 3, totalLikes = 22,
        messages =
          [\<lparr>msg_id = 1, msg_timestamp = ''09 December 2025 19:06'', msg_message = ''b'', msg_likes = 10\<rparr>,
           \<lparr>msg_id = 2, msg_timestamp = ''09 December 2025 19:07'', msg_message = ''c'', msg_likes = 10\<rparr>,
           \<lparr>msg_id = 3, msg_timestamp = ''09 December 2025 19:05'', msg_message = ''a'', msg_likes = 2\<rparr>] \<rparr>"
  using sorted_messages stable_messages ids_messages scenario_messages by blast

section \<open>Facts about sortByLikes\<close>

lemma likes_or_zero_simps:
  "likes_or_zero Undefined = 0"
  "likes_or_zero Null = 0"
  "likes_or_zero (Obj m) = (case item_likes m of JNum n \<Rightarrow> n | _ \<Rightarrow> 0)"
  by (simp_all add: likes_or_zero_def split: jsval.split)

lemma is_defined_simps:
  "is_defined Undefined = False" "is_defined Null = True" "is_defined (Obj m) = True"
  by (simp_all add: is_defined_def)

lemma insert_by_undefined_block:
  assumes "\<forall>u \<in> set us. u = Undefined"
  shows "insert_by (compare_elements cmp) Undefined us = Undefined # us"
  using assms by (cases us) (simp_all add: compare_elements_def)

lemma insert_by_compare_elements_undefined:
  assumes "\<forall>a \<in> set as. a \<noteq> Undefined" "\<forall>u \<in> set us. u = Undefined"
  shows "insert_by (compare_elements cmp) Undefined (as @ us) = as @ Undefined # us"
  using assms
  by (induction as) (simp_all add: insert_by_undefined_block compare_elements_def)

lemma insert_by_defined_block:
  assumes "x \<noteq> Undefined" "\<forall>u \<in> set us. u = Undefined"
  shows "insert_by (compare_elements cmp) x us = x # us"
  using assms by (cases us) (simp_all add: compare_elements_def)

lemma insert_by_compare_elements_defined:
  assumes "x \<noteq> Undefined" "\<forall>a \<in> set as. a \<noteq> Undefined" "\<forall>u \<in> set us. u = Undefined"
  shows "insert_by (compare_elements cmp) x (as @ us) = insert_by cmp x as @ us"
  using assms
  by (induction as) (simp_all add: insert_by_defined_block compare_elements_def)

lemma set_insert_by: "set (insert_by cmp x ys) = insert x (set ys)"
  by (induction ys) auto

lemma set_array_sort: "set (array_sort cmp xs) = set xs"
  by (induction xs) (simp_all add: array_sort_def set_insert_by)

lemma array_sort_Cons: "array_sort cmp (x # xs) = insert_by cmp x (array_sort cmp xs)"
  by (simp add: array_sort_def)

lemma array_sort_compare_elements:
  "array_sort (compare_elements cmp) xs =
   array_sort cmp (filter is_defined xs) @ filter (\<lambda>x. \<not> is_defined x) xs"
proof (induction xs)
  case Nil
  show ?case by (simp add: array_sort_def)
next
  case (Cons x xs)
  let ?as = "array_sort cmp (filter is_defined xs)"
  let ?us = "filter (\<lambda>x. \<not> is_defined x) xs"
  have as: "\<forall>a \<in> set ?as. a \<noteq> Undefined"
    by (simp add: set_array_sort is_defined_def)
  have us: "\<forall>u \<in> set ?us. u = Undefined"
    by (simp add: is_defined_def)
  show ?case
  proof (cases "x = Undefined")
    case True
    then have "array_sort (compare_elements cmp) (x # xs) = ?as @ Undefined # ?us"
      using insert_by_compare_elements_undefined [OF as us, of cmp]
      by (simp only: array_sort_Cons Cons.IH)
    with True show ?thesis
      by (simp add: is_defined_simps)
  next
    case False
    then have "array_sort (compare_elements cmp) (x # xs) = insert_by cmp x ?as @ ?us"
      using insert_by_compare_elements_defined [OF False as us, of cmp]
      by (simp only: array_sort_Cons Cons.IH)
    moreover from False have "is_defined x"
      by (simp add: is_defined_def)
    ultimately show ?thesis
      by (simp add: array_sort_Cons)
  qed
qed

lemma array_sort_compare_likes:
  "array_sort compare_likes xs = sort_key (\<lambda>x. - likes_or_zero x) xs"
  by (rule array_sort_sort_key) (simp add: compare_likes_def)

lemma sortByLikes_Array:
  "sortByLikes (Array xs) =
   sort_key (\<lambda>x. - likes_or_zero x) (filter is_defined xs) @ filter (\<lambda>x. \<not> is_defined x) xs"
  by (simp add: array_sort_compare_elements array_sort_compare_likes)

lemma mset_sortByLikes: "mset (sortByLikes (Array xs)) = mset xs"
  by (simp add: sortByLikes_Array del: sortByLikes.simps)

lemma set_sortByLikes: "set (sortByLikes (Array xs)) = set xs"
  using mset_sortByLikes [of xs] by (rule mset_eq_setD)

lemma filter_defined_sort_key:
  "filter is_defined (sort_key f (filter is_defined xs)) = sort_key f (filter is_defined xs)"
  by (rule filter_True) simp

lemma defined_sortByLikes:
  "filter is_defined (sortByLikes (Array xs)) =
   sort_key (\<lambda>x. - likes_or_zero x) (filter is_defined xs)"
  by (simp add: sortByLikes_Array filter_defined_sort_key del: sortByLikes.simps)

lemma undefined_last_sortByLikes:
  "sortByLikes (Array xs) =
   filter is_defined (sortByLikes (Array xs)) @ filter (\<lambda>x. x = Undefined) xs"
  by (simp only: defined_sortByLikes) (simp add: sortByLikes_Array is_defined_def del: sortByLikes.simps)

lemma likes_sorted_sortByLikes: "likes_sorted (sortByLikes (Array xs))"
  unfolding likes_sorted_def defined_sortByLikes
  by (rule sorted_desc_sort_key)

lemma ties_filter: "ties k xs = filter (\<lambda>x. likes_or_zero x = k) (filter is_defined xs)"
  by (simp add: ties_def conj_commute)

lemma ties_sortByLikes: "ties k (sortByLikes (Array xs)) = ties k xs"
  by (simp only: ties_filter defined_sortByLikes stable_desc_sort_key)

lemma ids_of_append: "ids_of (xs @ ys) = ids_of xs @ ids_of ys"
  by (simp add: ids_of_def List.map_filter_def)

lemma mset_ids_of: "mset xs = mset ys \<Longrightarrow> mset (ids_of xs) = mset (ids_of ys)"
proof -
  assume eq: "mset xs = mset ys"
  have "\<And>zs. mset (ids_of zs) = image_mset the (filter_mset (\<lambda>v. v \<noteq> None) (image_mset id_of (mset zs)))"
    subgoal for zs
      by (induction zs) (auto simp: ids_of_def List.map_filter_def)
    done
  then show ?thesis using eq by simp
qed

lemma ids_of_sortByLikes: "mset (ids_of (sortByLikes (Array xs))) = mset (ids_of xs)"
  by (rule mset_ids_of) (rule mset_sortByLikes)

section \<open>sortByLikes: the likes value and totality\<close>

lemma sorted_wrt_constant:
  fixes f :: "'a \<Rightarrow> int"
  shows "\<forall>x \<in> set ys. f x = c \<Longrightarrow> sorted_wrt (\<lambda>a b. f b \<le> f a) ys"
  by (induction ys) simp_all

lemma sorted_whole_sortByLikes:
  assumes "\<forall>x \<in> set xs. 0 \<le> likes_or_zero x"
  shows "sorted_wrt (\<lambda>a b. likes_or_zero b \<le> likes_or_zero a) (sortByLikes (Array xs))"
proof -
  let ?ds = "sort_key (\<lambda>x. - likes_or_zero x) (filter is_defined xs)"
  let ?us = "filter (\<lambda>x. \<not> is_defined x) xs"
  have ds: "sorted_wrt (\<lambda>a b. likes_or_zero b \<le> likes_or_zero a) ?ds"
    by (rule sorted_desc_sort_key)
  have "\<forall>u \<in> set ?us. u = Undefined"
    by (simp add: is_defined_def)
  then have zero: "\<forall>u \<in> set ?us. likes_or_zero u = 0"
    using likes_or_zero_simps(1) by metis
  then have us: "sorted_wrt (\<lambda>a b. likes_or_zero b \<le> likes_or_zero a) ?us"
    by (rule sorted_wrt_constant)
  have cross: "\<forall>a \<in> set ?ds. \<forall>u \<in> set ?us. likes_or_zero u \<le> likes_or_zero a"
    using assms zero by simp
  show ?thesis
    unfolding sortByLikes_Array
    using ds us cross by (simp only: sorted_wrt_append simp_thms)
qed

lemma sortByLikes_example:
  "sortByLikes (Array [Undefined, demo 1 (JNum 0) None, Null, demo 2 (JNum 3) None, demo 3 (JStr ''12'') None,
                        demo 4 JNull None, demo 5 JUndefined None, demo 6 (JNum 3) None, Undefined, demo 7 (JNum 4) None]) =
   [demo 7 (JNum 4) None, demo 2 (JNum 3) None, demo 6 (JNum 3) None, demo 1 (JNum 0) None, Null, demo 3 (JStr ''12'') None,
    demo 4 JNull None, demo 5 JUndefined None, Undefined, Undefined]"
  by code_simp

text \<open>
  Claim C9. The likes value the comparator of \<open>sortByLikes\<close> uses is the \<open>likes\<close> field when
  it is a number and 0 otherwise, for message objects and for \<open>null\<close> and \<open>undefined\<close>
  items alike. The sort has no failing path: it returns every item of its input, the
  defined items in descending order of that value with ties in input order, and the
  \<open>undefined\<close> items (which the engine never hands to the comparator) last; when no
  likes value is negative the whole result is in descending order with \<open>undefined\<close>
  counted as 0.
\<close>

theorem sortByLikes_numeric_likes_or_zero:
  "likes_or_zero (Obj m) = (case item_likes m of JNum n \<Rightarrow> n | _ \<Rightarrow> 0)
   \<and> likes_or_zero Null = 0
   \<and> likes_or_zero Undefined = 0
   \<and> mset (sortByLikes (Array xs)) = mset xs
   \<and> likes_sorted (sortByLikes (Array xs))
   \<and> (\<forall>k. ties k (sortByLikes (Array xs)) = ties k xs)
   \<and> sortByLikes (Array xs) =
       filter is_defined (sortByLikes (Array xs)) @ filter (\<lambda>x. x = Undefined) xs
   \<and> ((\<forall>x \<in> set xs. 0 \<le> likes_or_zero x) \<longrightarrow>
        sorted_wrt (\<lambda>a b. likes_or_zero b \<le> likes_or_zero a) (sortByLikes (Array xs)))
   \<and> sortByLikes (Array [Undefined, demo 1 (JNum 0) None, Null, demo 2 (JNum 3) None,
                           demo 3 (JStr ''12'') None, demo 4 JNull None, demo 5 JUndefined None,
                           demo 6 (JNum 3) None, Undefined, demo 7 (JNum 4) None]) =
       [demo 7 (JNum 4) None, demo 2 (JNum 3) None, demo 6 (JNum 3) None, demo 1 (JNum 0) None,
        Null, demo 3 (JStr ''12'') None, demo 4 JNull None, demo 5 JUndefined None,
        Undefined, Undefined]"
  using likes_or_zero_simps mset_sortByLikes likes_sorted_sortByLikes ties_sortByLikes
    undefined_last_sortByLikes sorted_whole_sortByLikes sortByLikes_example
  by (intro conjI allI impI) blast+

theorem sortByLikes_numeric_likes_or_zero_witness:
  "0 \<le> likes_or_zero Null
   \<and> 0 \<le> likes_or_zero (demo 1 (JStr ''many'') None)
   \<and> 0 \<le> likes_or_zero Undefined
   \<and> 0 \<le> likes_or_zero (demo 2 (JNum 5) None)
   \<and> sorted_wrt (\<lambda>a b. likes_or_zero b \<le> likes_or_zero a)
        (sortByLikes (Array [Null, demo 1 (JStr ''many'') None, Undefined, demo 2 (JNum 5) None]))"
proof -
  have pre: "\<forall>x \<in> set [Null, demo 1 (JStr ''many'') None, Undefined, demo 2 (JNum 5) None].
               0 \<le> likes_or_zero x"
    by (simp add: likes_or_zero_def demo_def)
  then show ?thesis
    using sortByLikes_numeric_likes_or_zero
      [where xs = "[Null, demo 1 (JStr ''many'') None, Undefined, demo 2 (JNum 5) None]"]
    by simp
qed

section \<open>Loading and the early return of addMessages\<close>

lemma get_property_Own: "get_property cols k = Own c \<longleftrightarrow> map_of cols k = Some c"
  by (simp add: get_property_def split: option.split)

lemma get_property_ui_ux: "map_of cols ''ui_ux'' = None \<Longrightarrow> \<not> truthy (get_property cols ''ui_ux'')"
  by (simp add: get_property_def object_prototype_names_def)

text \<open>
  Claim C10. \<open>addMessages\<close> called with a value that is not an array, or with the empty
  array, returns at once: the state after the call is the state before it, so the
  columns and the raw data are unchanged and no \<open>localStorage.setItem\<close> call is made.
  (A non-empty array, by contrast, appends to the raw data and writes it under the raw
  data key.)
\<close>

theorem addMessages_ignores_non_array_and_empty:
  "(msgs = NonArray \<or> msgs = Array [] \<longrightarrow> addMessages msgs st = Inr st)
   \<and> (ms \<noteq> [] \<and> addMessages (Array ms) st = Inr st' \<longrightarrow>
        rawData st' = rawData st @ ms
        \<and> setItem_calls st' = setItem_calls st @ [(RAW_DATA_KEY, StoredRaw (rawData st @ ms))])"
  by (auto simp: addMessages_def Let_def split: property.splits)

theorem addMessages_ignores_non_array_and_empty_witness:
  "addMessages NonArray (initial_state\<lparr>columns := demo_board [demo 1 (JNum 2) None] [] []\<rparr>) =
     Inr (initial_state\<lparr>columns := demo_board [demo 1 (JNum 2) None] [] []\<rparr>)
   \<and> addMessages (Array []) (initial_state\<lparr>columns := demo_board [demo 1 (JNum 2) None] [] []\<rparr>) =
     Inr (initial_state\<lparr>columns := demo_board [demo 1 (JNum 2) None] [] []\<rparr>)"
  using addMessages_ignores_non_array_and_empty
    [where msgs = NonArray and st = "initial_state\<lparr>columns := demo_board [demo 1 (JNum 2) None] [] []\<rparr>"]
    addMessages_ignores_non_array_and_empty
    [where msgs = "Array []" and st = "initial_state\<lparr>columns := demo_board [demo 1 (JNum 2) None] [] []\<rparr>"]
  by simp

lemma sortByLikes_Nil: "sortByLikes (Array []) = []"
  by (simp add: array_sort_def)

lemma loadData_fallback:
  assumes "saved_columns parsed = Some cols" "map_of cols ''ui_ux'' = None"
  shows "loadData raw (Some parsed) =
     (case raw of Some r \<Rightarrow> initial_state\<lparr>rawData := r\<rparr> | None \<Rightarrow> initial_state)
       \<lparr> columns :=
           [(''uncategorized'', initial_uncategorized\<lparr>items := sortByLikes (Array (all_items cols))\<rparr>),
            (''ui_ux'', \<lparr>col_id = ''ui_ux'', title = ''UI/UX'', items = []\<rparr>),
            (''library'', \<lparr>col_id = ''library'', title = ''Library'', items = []\<rparr>),
            (''ai'', \<lparr>col_id = ''ai'', title = ''AI'', items = []\<rparr>),
            (''headless'', \<lparr>col_id = ''headless'', title = ''Headless UI'', items = []\<rparr>)],
         loading := False \<rparr>"
  using assms get_property_ui_ux [OF assms(2)]
  by (cases raw)
     (simp_all add: loadData_def Let_def initial_state_def initial_columns_def all_items_def
        sortAllColumnsByLikes_def sortByLikes_Nil del: sortByLikes.simps)

text \<open>
  Claim C7. When the saved board has a \<open>columns\<close> object without the key \<open>ui_ux\<close>, the
  loaded board is the default board of five columns in the default order, its
  \<open>uncategorized\<close> column holds every item of every saved column (sorted by likes), the
  other four columns are empty, and \<open>columnOrder\<close> is the default order: the saved
  columns and the saved order are discarded.
\<close>

theorem loadData_without_ui_ux_merges_into_uncategorized:
  assumes "saved_columns parsed = Some cols" and "map_of cols ''ui_ux'' = None"
  shows "columns (loadData raw (Some parsed)) =
           [(''uncategorized'',
               \<lparr>col_id = ''uncategorized'', title = ''Uncategorized'',
                  items = sortByLikes (Array (all_items cols))\<rparr>),
            (''ui_ux'', \<lparr>col_id = ''ui_ux'', title = ''UI/UX'', items = []\<rparr>),
            (''library'', \<lparr>col_id = ''library'', title = ''Library'', items = []\<rparr>),
            (''ai'', \<lparr>col_id = ''ai'', title = ''AI'', items = []\<rparr>),
            (''headless'', \<lparr>col_id = ''headless'', title = ''Headless UI'', items = []\<rparr>)]
       \<and> mset (all_items (columns (loadData raw (Some parsed)))) = mset (all_items cols)
       \<and> columnOrder (loadData raw (Some parsed)) =
           [''uncategorized'', ''ui_ux'', ''library'', ''ai'', ''headless'']
       \<and> loading (loadData raw (Some parsed)) = False"
proof -
  have "mset (all_items (columns (loadData raw (Some parsed)))) = mset (all_items cols)"
    by (cases raw)
       (simp_all add: loadData_fallback [OF assms] all_items_def [of "_ # _"]
          mset_sortByLikes del: sortByLikes.simps)
  then show ?thesis
    by (cases raw)
       (simp_all add: loadData_fallback [OF assms] initial_state_def initial_columnOrder_def
          initial_uncategorized_def del: sortByLikes.simps)
qed

theorem loadData_without_ui_ux_merges_into_uncategorized_witness:
  "columns (loadData None (Some \<lparr> saved_columns = Some
       [(''todo'', \<lparr>col_id = ''todo'', title = ''To do'',
                      items = [demo 1 (JNum 2) None, demo 2 (JNum 9) None]\<rparr>),
        (''done'', \<lparr>col_id = ''done'', title = ''Done'', items = [demo 3 (JNum 9) None]\<rparr>)],
       saved_columnOrder = [''todo'', ''done''] \<rparr>)) =
     [(''uncategorized'',
         \<lparr>col_id = ''uncategorized'', title = ''Uncategorized'',
            items = [demo 2 (JNum 9) None, demo 3 (JNum 9) None, demo 1 (JNum 2) None]\<rparr>),
      (''ui_ux'', \<lparr>col_id = ''ui_ux'', title = ''UI/UX'', items = []\<rparr>),
      (''library'', \<lparr>col_id = ''library'', title = ''Library'', items = []\<rparr>),
      (''ai'', \<lparr>col_id = ''ai'', title = ''AI'', items = []\<rparr>),
      (''headless'', \<lparr>col_id = ''headless'', title = ''Headless UI'', items = []\<rparr>)]
   \<and> columnOrder (loadData None (Some \<lparr> saved_columns = Some
       [(''todo'', \<lparr>col_id = ''todo'', title = ''To do'',
                      items = [demo 1 (JNum 2) None, demo 2 (JNum 9) None]\<rparr>),
        (''done'', \<lparr>col_id = ''done'', title = ''Done'', items = [demo 3 (JNum 9) None]\<rparr>)],
       saved_columnOrder = [''todo'', ''done''] \<rparr>)) =
     [''uncategorized'', ''ui_ux'', ''library'', ''ai'', ''headless'']"
proof -
  let ?cols = "[(''todo'', \<lparr>col_id = ''todo'', title = ''To do'',
                      items = [demo 1 (JNum 2) None, demo 2 (JNum 9) None]\<rparr>),
        (''done'', \<lparr>col_id = ''done'', title = ''Done'', items = [demo 3 (JNum 9) None]\<rparr>)]"
  let ?parsed = "\<lparr> saved_columns = Some ?cols, saved_columnOrder = [''todo'', ''done''] \<rparr>"
  have h1: "saved_columns ?parsed = Some ?cols" by simp
  have h2: "map_of ?cols ''ui_ux'' = None" by simp
  have s: "sortByLikes (Array (all_items ?cols)) =
           [demo 2 (JNum 9) None, demo 3 (JNum 9) None, demo 1 (JNum 2) None]"
    by code_simp
  show ?thesis
    using loadData_without_ui_ux_merges_into_uncategorized [OF h1 h2, of None]
    by (simp only: s)
qed

section \<open>Facts about the columns object and the push loop\<close>

subsection \<open>Replacing a column\<close>

lemma map_of_split:
  "map_of cols k = Some c \<Longrightarrow> \<exists>pre post. cols = pre @ (k, c) # post \<and> k \<notin> fst ` set pre"
proof (induction cols)
  case Nil
  then show ?case by simp
next
  case (Cons p cols)
  show ?case
  proof (cases "fst p = k")
    case True
    with Cons.prems have "p # cols = [] @ (k, c) # cols" by (cases p) simp
    then show ?thesis by fastforce
  next
    case False
    with Cons.prems have "map_of cols k = Some c" by (cases p) simp
    then obtain pre post where "cols = pre @ (k, c) # post" "k \<notin> fst ` set pre"
      using Cons.IH by blast
    with False have "p # cols = (p # pre) @ (k, c) # post \<and> k \<notin> fst ` set (p # pre)"
      by auto
    then show ?thesis by blast
  qed
qed

lemma update_split:
  "k \<notin> fst ` set pre \<Longrightarrow> AList.update k v (pre @ (k, c) # post) = pre @ (k, v) # post"
  by (induction pre) auto

lemma all_items_Nil: "all_items [] = []"
  by (simp add: all_items_def)

lemma all_items_Cons: "all_items ((k, c) # cols) = items c @ all_items cols"
  by (simp add: all_items_def)

lemma all_items_append: "all_items (xs @ ys) = all_items xs @ all_items ys"
  by (simp add: all_items_def)

lemma mset_all_items_update:
  assumes "map_of cols k = Some c"
  shows "mset (all_items (AList.update k c' cols)) + mset (items c) =
         mset (all_items cols) + mset (items c')"
proof -
  obtain pre post where "cols = pre @ (k, c) # post" "k \<notin> fst ` set pre"
    using map_of_split [OF assms] by blast
  then show ?thesis
    by (simp add: update_split all_items_append all_items_Cons)
qed

lemma keys_update:
  "map_of cols k = Some c \<Longrightarrow> map fst (AList.update k c' cols) = map fst cols"
  by (auto simp: update_keys dest: map_of_SomeD intro: rev_image_eqI)

lemma map_of_update_other:
  "k' \<noteq> k \<Longrightarrow> map_of (AList.update k v cols) k' = map_of cols k'"
  by (simp add: update_conv')

lemma map_of_update_same: "map_of (AList.update k v cols) k = Some v"
  by (simp add: update_conv')

lemma set_update_subset: "set (AList.update k v cols) \<subseteq> insert (k, v) (set cols)"
  by (induction cols) auto

lemma get_property_keys:
  "map fst cols = map fst cols' \<Longrightarrow> truthy (get_property cols k) = truthy (get_property cols' k)"
proof -
  assume "map fst cols = map fst cols'"
  then have "map_of cols k = None \<longleftrightarrow> map_of cols' k = None"
    by (metis map_of_eq_None_iff set_map)
  then show ?thesis
    by (auto simp: get_property_def split: option.splits)
qed

lemma target_of_keys:
  "map fst cols = map fst cols' \<Longrightarrow> target_of cols r = target_of cols' r"
  by (simp add: target_of_def Let_def get_property_keys [of cols cols'])

lemma targetCat_keys:
  "map fst cols = map fst cols' \<Longrightarrow> targetCat cls cols m = targetCat cls cols' m"
  by (simp add: targetCat_def target_of_keys [of cols cols'] split: option.splits)

lemma routed_keys:
  assumes "map fst cols = map fst cols'"
  shows "routed cls cols k xs = routed cls cols' k xs"
proof (induction xs)
  case Nil
  show ?case by simp
next
  case (Cons x xs)
  then show ?case
    by (cases x) (simp_all add: targetCat_keys [OF assms])
qed

subsection \<open>The push loop\<close>

lemma mset_push_items:
  "push_items cls xs cols = Inr cols' \<Longrightarrow>
   mset (all_items cols') = mset (all_items cols) + mset (map (reclassified cls) xs)"
proof (induction cls xs cols rule: push_items.induct)
  case (2 cls m rest cols)
  from "2.prems" obtain col where
    own: "get_property cols (targetCat cls cols m) = Own col"
    by (auto split: property.splits)
  let ?next = "AList.update (targetCat cls cols m)
                 (col\<lparr>items := items col @ [Obj (assign_sentiment cls m)]\<rparr>) cols"
  from "2.prems" own have run: "push_items cls rest ?next = Inr cols'"
    by simp
  have "map_of cols (targetCat cls cols m) = Some col"
    using own by (simp add: get_property_Own)
  then have "mset (all_items ?next) = mset (all_items cols) + {#Obj (assign_sentiment cls m)#}"
    using mset_all_items_update [of cols "targetCat cls cols m" col
        "col\<lparr>items := items col @ [Obj (assign_sentiment cls m)]\<rparr>"]
    by simp
  with "2.IH" [OF own run] show ?case
    by simp
qed simp_all

lemma keys_push_items:
  "push_items cls xs cols = Inr cols' \<Longrightarrow> map fst cols' = map fst cols"
proof (induction cls xs cols rule: push_items.induct)
  case (2 cls m rest cols)
  from "2.prems" obtain col where
    own: "get_property cols (targetCat cls cols m) = Own col"
    by (auto split: property.splits)
  let ?next = "AList.update (targetCat cls cols m)
                 (col\<lparr>items := items col @ [Obj (assign_sentiment cls m)]\<rparr>) cols"
  from "2.prems" own have run: "push_items cls rest ?next = Inr cols'"
    by simp
  have "map fst ?next = map fst cols"
    using own by (simp add: get_property_Own keys_update)
  with "2.IH" [OF own run] show ?case by simp
qed simp_all

lemma objects_push_items:
  "push_items cls xs cols = Inr cols' \<Longrightarrow> list_all is_object xs"
proof (induction cls xs cols rule: push_items.induct)
  case (2 cls m rest cols)
  from "2.prems" obtain col where
    own: "get_property cols (targetCat cls cols m) = Own col"
    by (auto split: property.splits)
  from "2.prems" own "2.IH" [OF own] show ?case by simp
qed simp_all

section \<open>What updateCategoryForIds computes\<close>

lemma push_items_Obj:
  "push_items cls (Obj m # rest) cols = Inr cols' \<Longrightarrow>
   \<exists>col. map_of cols (targetCat cls cols m) = Some col \<and>
     push_items cls rest
       (AList.update (targetCat cls cols m)
          (col\<lparr>items := items col @ [Obj (assign_sentiment cls m)]\<rparr>) cols) = Inr cols'"
  by (auto simp: get_property_Own [symmetric] split: property.splits)

lemma push_items_not_Obj:
  "push_items cls (x # rest) cols = Inr cols' \<Longrightarrow> \<exists>m. x = Obj m"
  by (cases x) simp_all

lemma push_items_columns:
  assumes "distinct (map fst cols)" and "push_items cls xs cols = Inr cols'"
  shows "cols' = map (\<lambda>(k, c). (k, c\<lparr>items := items c @ routed cls cols k xs\<rparr>)) cols"
  using assms
proof (induction xs arbitrary: cols)
  case Nil
  then show ?case by (simp add: case_prod_unfold)
next
  case (Cons x xs)
  from Cons.prems(2) obtain m where x: "x = Obj m"
    using push_items_not_Obj by blast
  define t where "t = targetCat cls cols m"
  define pushed where "pushed = Obj (assign_sentiment cls m)"
  from Cons.prems(2) x obtain col where
    col: "map_of cols t = Some col" and
    run: "push_items cls xs (AList.update t (col\<lparr>items := items col @ [pushed]\<rparr>) cols) = Inr cols'"
    unfolding t_def pushed_def using push_items_Obj by blast
  define col1 where "col1 = col\<lparr>items := items col @ [pushed]\<rparr>"
  define nxt where "nxt = AList.update t col1 cols"
  have keys: "map fst nxt = map fst cols"
    unfolding nxt_def using col by (rule keys_update)
  then have dist: "distinct (map fst nxt)"
    using Cons.prems(1) by simp
  have run': "push_items cls xs nxt = Inr cols'"
    using run by (simp add: nxt_def col1_def)
  have step: "cols' = map (\<lambda>(k, c). (k, c\<lparr>items := items c @ routed cls cols k xs\<rparr>)) nxt"
    using Cons.IH [OF dist run'] by (simp only: routed_keys [OF keys])
  obtain pre post where split: "cols = pre @ (t, col) # post" and pre: "t \<notin> fst ` set pre"
    using map_of_split [OF col] by blast
  have "distinct (map fst (pre @ (t, col) # post))"
    using Cons.prems(1) by (simp only: split)
  then have post: "t \<notin> fst ` set post"
    by auto
  have next_eq: "nxt = pre @ (t, col1) # post"
    unfolding nxt_def split using pre by (rule update_split)
  have other: "\<And>k. k \<noteq> t \<Longrightarrow> routed cls cols k (x # xs) = routed cls cols k xs"
    by (simp add: x t_def)
  have same: "routed cls cols t (x # xs) = pushed # routed cls cols t xs"
    by (simp add: x t_def pushed_def)
  have unchanged: "\<And>ys :: board. t \<notin> fst ` set ys \<Longrightarrow>
        map (\<lambda>(k, c). (k, c\<lparr>items := items c @ routed cls cols k xs\<rparr>)) ys =
        map (\<lambda>(k, c). (k, c\<lparr>items := items c @ routed cls cols k (x # xs)\<rparr>)) ys"
  proof -
    fix ys :: board
    assume "t \<notin> fst ` set ys"
    then have "\<forall>p \<in> set ys. fst p \<noteq> t"
      by auto
    then show "map (\<lambda>(k, c). (k, c\<lparr>items := items c @ routed cls cols k xs\<rparr>)) ys =
        map (\<lambda>(k, c). (k, c\<lparr>items := items c @ routed cls cols k (x # xs)\<rparr>)) ys"
      by (intro map_cong refl) (simp add: case_prod_unfold other del: routed.simps)
  qed
  have here: "col1\<lparr>items := items col1 @ routed cls cols t xs\<rparr> =
              col\<lparr>items := items col @ routed cls cols t (x # xs)\<rparr>"
    by (simp add: col1_def same del: routed.simps)
  have "map (\<lambda>(k, c). (k, c\<lparr>items := items c @ routed cls cols k xs\<rparr>)) nxt =
        map (\<lambda>(k, c). (k, c\<lparr>items := items c @ routed cls cols k (x # xs)\<rparr>))
          (pre @ (t, col) # post)"
    unfolding next_eq
    by (simp only: map_append list.map unchanged [OF pre] unchanged [OF post] prod.case here)
  then show ?case
    using step by (simp only: split [symmetric])
qed

lemma keys_clear_columns: "map fst (clear_columns cols) = map fst cols"
  by (simp add: clear_columns_def case_prod_unfold)

lemma all_items_clear_columns: "all_items (clear_columns cols) = []"
  by (induction cols) (auto simp: clear_columns_def all_items_def)

lemma updateCategoryForIds_Inr:
  "updateCategoryForIds cls cols = Inr cols' \<longleftrightarrow>
   (\<exists>pushed. push_items cls (all_items cols) (clear_columns cols) = Inr pushed
      \<and> cols' = sortAllColumnsByLikes pushed)"
  by (auto simp: updateCategoryForIds_def split: sum.splits)

lemma updateCategoryForIds_columns:
  assumes "has_own_keys cols" and "updateCategoryForIds cls cols = Inr cols'"
  shows "cols' = map (\<lambda>(k, c). (k, c\<lparr>items := sortByLikes (Array (routed cls cols k (all_items cols)))\<rparr>)) cols"
proof -
  from assms(2) obtain pushed where
    run: "push_items cls (all_items cols) (clear_columns cols) = Inr pushed" and
    res: "cols' = sortAllColumnsByLikes pushed"
    by (auto simp: updateCategoryForIds_Inr)
  have dist: "distinct (map fst (clear_columns cols))"
    using assms(1) by (simp add: keys_clear_columns has_own_keys_def)
  have "pushed = map (\<lambda>(k, c). (k, c\<lparr>items := items c @ routed cls (clear_columns cols) k (all_items cols)\<rparr>))
                   (clear_columns cols)"
    using push_items_columns [OF dist run] .
  also have "\<dots> = map (\<lambda>(k, c). (k, c\<lparr>items := routed cls cols k (all_items cols)\<rparr>)) cols"
    by (simp only: routed_keys [OF keys_clear_columns])
       (simp add: clear_columns_def case_prod_unfold)
  finally show ?thesis
    unfolding res
    by (simp add: sortAllColumnsByLikes_def case_prod_unfold del: sortByLikes.simps)
qed

lemma mset_updateCategoryForIds:
  assumes "updateCategoryForIds cls cols = Inr cols'"
  shows "mset (all_items cols') = mset (map (reclassified cls) (all_items cols))"
proof -
  from assms obtain pushed where
    run: "push_items cls (all_items cols) (clear_columns cols) = Inr pushed" and
    res: "cols' = sortAllColumnsByLikes pushed"
    by (auto simp: updateCategoryForIds_Inr)
  have "mset (all_items (sortAllColumnsByLikes pushed)) = mset (all_items pushed)"
    by (induction pushed)
       (auto simp: sortAllColumnsByLikes_def all_items_def mset_sortByLikes simp del: sortByLikes.simps)
  with mset_push_items [OF run] res show ?thesis
    by (simp add: all_items_clear_columns)
qed

section \<open>Ids, splice and the cases of moveCard\<close>

subsection \<open>Ids\<close>

lemma ids_of_Cons_Undefined: "ids_of (Undefined # xs) = ids_of xs"
  by (simp add: ids_of_def List.map_filter_def)

lemma ids_of_reclassified: "ids_of (map (reclassified cls) xs) = ids_of xs"
proof (induction xs)
  case Nil
  show ?case by simp
next
  case (Cons x xs)
  have "id_of (reclassified cls x) = id_of x"
    by (cases x) (simp_all add: assign_sentiment_def split: option.split)
  with Cons show ?case
    by (simp add: ids_of_def List.map_filter_def)
qed

lemma board_ids_update:
  assumes "map_of cols k = Some c"
  shows "mset (board_ids (AList.update k c' cols)) + mset (ids_of (items c)) =
         mset (board_ids cols) + mset (ids_of (items c'))"
proof -
  have "mset (all_items (AList.update k c' cols) @ items c) = mset (all_items cols @ items c')"
    using mset_all_items_update [OF assms, of c'] by simp
  then have "mset (ids_of (all_items (AList.update k c' cols) @ items c)) =
             mset (ids_of (all_items cols @ items c'))"
    by (rule mset_ids_of)
  then show ?thesis
    by (simp add: board_ids_def ids_of_append)
qed

lemma board_ids_updateCategoryForIds:
  assumes "updateCategoryForIds cls cols = Inr cols'"
  shows "mset (board_ids cols') = mset (board_ids cols)"
proof -
  have "mset (ids_of (all_items cols')) = mset (ids_of (map (reclassified cls) (all_items cols)))"
    using mset_updateCategoryForIds [OF assms] by (rule mset_ids_of)
  then show ?thesis
    by (simp add: board_ids_def ids_of_reclassified)
qed

subsection \<open>splice\<close>

lemma splice_remove_cases:
  "(\<exists>k < length xs. splice_remove xs i = (xs ! k, take k xs @ drop (Suc k) xs))
   \<or> splice_remove xs i = (Undefined, xs)"
  by (auto simp: splice_remove_def Let_def)

lemma mset_splice_remove:
  "mset (fst (splice_remove xs i) # snd (splice_remove xs i)) = mset xs
   \<or> (fst (splice_remove xs i) = Undefined \<and> snd (splice_remove xs i) = xs)"
  using splice_remove_cases [of xs i]
proof
  assume "\<exists>k < length xs. splice_remove xs i = (xs ! k, take k xs @ drop (Suc k) xs)"
  then obtain k where k: "k < length xs"
    and eq: "splice_remove xs i = (xs ! k, take k xs @ drop (Suc k) xs)"
    by blast
  have "mset (xs ! k # take k xs @ drop (Suc k) xs) = mset (take k xs @ xs ! k # drop (Suc k) xs)"
    by simp
  also have "\<dots> = mset xs"
    using k by (simp only: id_take_nth_drop [symmetric])
  finally show ?thesis
    using eq by simp
next
  assume "splice_remove xs i = (Undefined, xs)"
  then show ?thesis by simp
qed

lemma ids_splice_remove:
  "mset (ids_of (fst (splice_remove xs i) # snd (splice_remove xs i))) = mset (ids_of xs)"
  using mset_splice_remove [of xs i]
proof
  assume "mset (fst (splice_remove xs i) # snd (splice_remove xs i)) = mset xs"
  then show ?thesis by (rule mset_ids_of)
next
  assume "fst (splice_remove xs i) = Undefined \<and> snd (splice_remove xs i) = xs"
  then show ?thesis by (simp add: ids_of_Cons_Undefined)
qed

lemma mset_splice_insert: "mset (splice_insert ys j x) = mset (x # ys)"
proof -
  have "mset (take k ys) + mset (drop k ys) = mset ys" for k
    by (metis append_take_drop_id mset_append)
  then show ?thesis
    by (simp add: splice_insert_def Let_def)
qed

lemma ids_splice_insert: "mset (ids_of (splice_insert ys j x)) = mset (ids_of (x # ys))"
  using mset_splice_insert by (rule mset_ids_of)

subsection \<open>moveCard\<close>

lemma moveCard_Inr:
  assumes "moveCard source destination cols = Inr cols'"
  obtains (unchanged) "cols' = cols"
    | (moved) dest sc dc where
        "destination = Some dest"
        "map_of cols (droppableId source) = Some sc"
        "map_of cols (droppableId dest) = Some dc"
        "cols' =
           AList.update (droppableId dest)
             (dc\<lparr>items := sortByLikes (Array
                  (splice_insert
                     (if droppableId source = droppableId dest
                      then snd (splice_remove (items sc) (index source)) else items dc)
                     (index dest) (fst (splice_remove (items sc) (index source)))))\<rparr>)
             (AList.update (droppableId source)
                (sc\<lparr>items :=
                   (if droppableId source = droppableId dest
                    then splice_insert (snd (splice_remove (items sc) (index source)))
                           (index dest) (fst (splice_remove (items sc) (index source)))
                    else snd (splice_remove (items sc) (index source)))\<rparr>)
                cols)"
proof (cases destination)
  case None
  with assms have "cols' = cols" by (simp add: moveCard_def)
  then show ?thesis by (rule unchanged)
next
  case (Some dest)
  show ?thesis
  proof (cases "(droppableId source = droppableId dest \<and> index source = index dest)
                \<or> \<not> truthy (get_property cols (droppableId source))
                \<or> \<not> truthy (get_property cols (droppableId dest))")
    case True
    with assms Some have "cols' = cols"
      by (auto simp: moveCard_def Let_def split: if_splits)
    then show ?thesis by (rule unchanged)
  next
    case False
    with assms Some obtain sc dc where
      sc: "get_property cols (droppableId source) = Own sc" and
      dc: "get_property cols (droppableId dest) = Own dc"
      by (auto simp: moveCard_def Let_def split: property.splits)
    from assms Some False sc dc have
      "cols' =
           AList.update (droppableId dest)
             (dc\<lparr>items := sortByLikes (Array
                  (splice_insert
                     (if droppableId source = droppableId dest
                      then snd (splice_remove (items sc) (index source)) else items dc)
                     (index dest) (fst (splice_remove (items sc) (index source)))))\<rparr>)
             (AList.update (droppableId source)
                (sc\<lparr>items :=
                   (if droppableId source = droppableId dest
                    then splice_insert (snd (splice_remove (items sc) (index source)))
                           (index dest) (fst (splice_remove (items sc) (index source)))
                    else snd (splice_remove (items sc) (index source)))\<rparr>)
                cols)"
      by (simp add: moveCard_def Let_def case_prod_unfold del: sortByLikes.simps split: if_splits)
    with Some sc dc show ?thesis
      by (intro moved) (simp_all add: get_property_Own)
  qed
qed

section \<open>The ids of the board under the three operations\<close>

lemma ids_of_Cons: "mset (ids_of (x # xs)) = mset (ids_of [x]) + mset (ids_of xs)"
  using ids_of_append [of "[x]" xs] by simp

lemma board_ids_moveCard:
  assumes "moveCard source destination cols = Inr cols'"
  shows "mset (board_ids cols') = mset (board_ids cols)"
  using assms
proof (cases rule: moveCard_Inr)
  case unchanged
  then show ?thesis by simp
next
  case (moved dest sc dc)
  define x where "x = fst (splice_remove (items sc) (index source))"
  define rest where "rest = snd (splice_remove (items sc) (index source))"
  have src: "mset (ids_of (items sc)) = mset (ids_of [x]) + mset (ids_of rest)"
    unfolding x_def rest_def
    using ids_splice_remove [of "items sc" "index source"] ids_of_Cons by metis
  show ?thesis
  proof (cases "droppableId source = droppableId dest")
    case True
    with moved(2,3) have same: "dc = sc" by simp
    define S where "S = sortByLikes (Array (splice_insert rest (index dest) x))"
    have "cols' = AList.update (droppableId dest) (dc\<lparr>items := S\<rparr>) cols"
      using moved(4) True by (simp add: S_def x_def rest_def del: sortByLikes.simps)
    then have "mset (board_ids cols') + mset (ids_of (items dc)) =
               mset (board_ids cols) + mset (ids_of S)"
      using board_ids_update [OF moved(3), of "dc\<lparr>items := S\<rparr>"] by simp
    moreover have "mset (ids_of S) = mset (ids_of (items sc))"
      unfolding S_def
      by (simp only: ids_of_sortByLikes ids_splice_insert src ids_of_Cons [of x rest])
    ultimately show ?thesis
      using same by simp
  next
    case False
    define mid where "mid = AList.update (droppableId source) (sc\<lparr>items := rest\<rparr>) cols"
    define S where "S = sortByLikes (Array (splice_insert (items dc) (index dest) x))"
    have dc: "map_of mid (droppableId dest) = Some dc"
      unfolding mid_def using False moved(3) by (simp add: map_of_update_other)
    have "cols' = AList.update (droppableId dest) (dc\<lparr>items := S\<rparr>) mid"
      using moved(4) False by (simp add: S_def mid_def x_def rest_def del: sortByLikes.simps)
    then have one: "mset (board_ids cols') + mset (ids_of (items dc)) =
               mset (board_ids mid) + mset (ids_of S)"
      using board_ids_update [OF dc, of "dc\<lparr>items := S\<rparr>"] by simp
    have two: "mset (ids_of S) = mset (ids_of [x]) + mset (ids_of (items dc))"
      unfolding S_def
      by (simp only: ids_of_sortByLikes ids_splice_insert ids_of_Cons [of x "items dc"])
    have three: "mset (board_ids mid) + mset (ids_of (items sc)) =
               mset (board_ids cols) + mset (ids_of rest)"
      unfolding mid_def
      using board_ids_update [OF moved(2), of "sc\<lparr>items := rest\<rparr>"] by simp
    from one two have "mset (board_ids cols') = mset (board_ids mid) + mset (ids_of [x])"
      by simp
    moreover from three src have "mset (board_ids mid) + mset (ids_of [x]) = mset (board_ids cols)"
      by simp
    ultimately show ?thesis by simp
  qed
qed

lemma board_ids_addMessages:
  assumes "addMessages (Array ms) st = Inr st'"
  shows "mset (board_ids (columns st')) = mset (board_ids (columns st)) + mset (ids_of ms)"
proof (cases "ms = []")
  case True
  with assms show ?thesis
    by (simp add: addMessages_def ids_of_def List.map_filter_def)
next
  case False
  with assms obtain unc where
    unc: "map_of (columns st) ''uncategorized'' = Some unc" and
    res: "columns st' = AList.update ''uncategorized''
            (unc\<lparr>items := sortByLikes (Array (items unc @ ms))\<rparr>) (columns st)"
    by (auto simp: addMessages_def Let_def get_property_Own [symmetric]
        simp del: sortByLikes.simps split: property.splits)
  have "mset (board_ids (columns st')) + mset (ids_of (items unc)) =
        mset (board_ids (columns st)) + mset (ids_of (sortByLikes (Array (items unc @ ms))))"
    unfolding res
    using board_ids_update [OF unc, of "unc\<lparr>items := sortByLikes (Array (items unc @ ms))\<rparr>"]
    by simp
  then show ?thesis
    by (simp add: ids_of_sortByLikes ids_of_append del: sortByLikes.simps)
qed


lemma mset_push_items_interrupted:
  "push_items cls xs cols = Inl (e, cols') \<Longrightarrow>
   mset (all_items cols') \<subseteq># mset (all_items cols) + mset (map (reclassified cls) xs)"
proof (induction cls xs cols rule: push_items.induct)
  case (2 cls m rest cols)
  show ?case
  proof (cases "get_property cols (targetCat cls cols m)")
    case (Own col)
    let ?next = "AList.update (targetCat cls cols m)
                   (col\<lparr>items := items col @ [Obj (assign_sentiment cls m)]\<rparr>) cols"
    from "2.prems" Own have run: "push_items cls rest ?next = Inl (e, cols')"
      by simp
    have "map_of cols (targetCat cls cols m) = Some col"
      using Own by (simp add: get_property_Own)
    then have "mset (all_items ?next) = mset (all_items cols) + {#Obj (assign_sentiment cls m)#}"
      using mset_all_items_update [of cols "targetCat cls cols m" col
          "col\<lparr>items := items col @ [Obj (assign_sentiment cls m)]\<rparr>"]
      by simp
    with "2.IH" [OF Own run] show ?thesis
      by simp
  next
    case Inherited
    with "2.prems" have "cols' = cols" by simp
    then show ?thesis by simp
  next
    case Absent
    with "2.prems" have "cols' = cols" by simp
    then show ?thesis by simp
  qed
qed simp_all

lemma mset_ids_of_mono:
  assumes "mset xs \<subseteq># mset ys"
  shows "mset (ids_of xs) \<subseteq># mset (ids_of ys)"
proof -
  have rep: "\<And>zs. mset (ids_of zs) =
      image_mset the (filter_mset (\<lambda>v. v \<noteq> None) (image_mset id_of (mset zs)))"
    subgoal for zs
      by (induction zs) (auto simp: ids_of_def List.map_filter_def)
    done
  show ?thesis
    unfolding rep
    by (intro image_mset_subseteq_mono multiset_filter_mono assms)
qed

lemma distinct_mset_subseteq:
  assumes "mset xs \<subseteq># mset ys" and "distinct ys"
  shows "distinct xs"
proof -
  from assms(1) obtain C where "mset ys = mset xs + C"
    by (auto simp: mset_subset_eq_exists_conv)
  moreover obtain zs where "C = mset zs"
    using ex_mset by metis
  ultimately have "mset ys = mset (xs @ zs)"
    by simp
  then have "distinct ys \<longleftrightarrow> distinct (xs @ zs)"
    by (rule mset_eq_imp_distinct_iff)
  with assms(2) show ?thesis by simp
qed

lemma board_ids_updateCategoryForIds_interrupted:
  assumes "updateCategoryForIds cls cols = Inl (e, cols')"
  shows "mset (board_ids cols') \<subseteq># mset (board_ids cols)"
proof -
  from assms have run: "push_items cls (all_items cols) (clear_columns cols) = Inl (e, cols')"
    by (auto simp: updateCategoryForIds_def split: sum.splits)
  have "mset (all_items cols') \<subseteq># mset (map (reclassified cls) (all_items cols))"
    using mset_push_items_interrupted [OF run] by (simp add: all_items_clear_columns)
  then have "mset (ids_of (all_items cols')) \<subseteq># mset (ids_of (map (reclassified cls) (all_items cols)))"
    by (rule mset_ids_of_mono)
  then show ?thesis
    by (simp add: board_ids_def ids_of_reclassified)
qed

section \<open>Where a classified record lands\<close>

lemma map_of_keys_None:
  "map fst cols = map fst cols' \<Longrightarrow> map_of cols k = None \<longleftrightarrow> map_of cols' k = None"
  by (metis map_of_eq_None_iff set_map)

lemma push_items_target_own:
  "push_items cls xs cols = Inr cols' \<Longrightarrow> Obj m \<in> set xs \<Longrightarrow>
   map_of cols (targetCat cls cols m) \<noteq> None"
proof (induction xs arbitrary: cols)
  case Nil
  then show ?case by simp
next
  case (Cons x xs)
  from Cons.prems(1) obtain m0 where x: "x = Obj m0"
    using push_items_not_Obj by blast
  from Cons.prems(1) x obtain col where
    col: "map_of cols (targetCat cls cols m0) = Some col" and
    run: "push_items cls xs
            (AList.update (targetCat cls cols m0)
               (col\<lparr>items := items col @ [Obj (assign_sentiment cls m0)]\<rparr>) cols) = Inr cols'"
    using push_items_Obj by blast
  define nxt where "nxt = AList.update (targetCat cls cols m0)
               (col\<lparr>items := items col @ [Obj (assign_sentiment cls m0)]\<rparr>) cols"
  have keys: "map fst nxt = map fst cols"
    unfolding nxt_def using col by (rule keys_update)
  show ?case
  proof (cases "m = m0")
    case True
    with col show ?thesis by simp
  next
    case False
    with Cons.prems(2) x have "Obj m \<in> set xs" by simp
    then have "map_of nxt (targetCat cls nxt m) \<noteq> None"
      using Cons.IH run by (simp add: nxt_def)
    then show ?thesis
      by (simp only: targetCat_keys [OF keys] map_of_keys_None [OF keys] not_False_eq_True)
  qed
qed

lemma routed_member:
  "Obj m \<in> set xs \<Longrightarrow>
   Obj (assign_sentiment cls m) \<in> set (routed cls cols (targetCat cls cols m) xs)"
proof (induction xs)
  case Nil
  then show ?case by simp
next
  case (Cons x xs)
  then show ?case by (cases x) auto
qed

lemma map_of_map_columns:
  "map_of (map (\<lambda>(k, c). (k, f k c)) cols) k = map_option (f k) (map_of cols k)"
  by (induction cols) auto

lemma updateCategoryForIds_places:
  assumes "has_own_keys cols" and "updateCategoryForIds cls cols = Inr cols'"
    and "Obj m \<in> set (all_items cols)"
  shows "\<exists>col'. map_of cols' (targetCat cls cols m) = Some col'
           \<and> Obj (assign_sentiment cls m) \<in> set (items col')"
proof -
  from assms(2) obtain pushed where
    run: "push_items cls (all_items cols) (clear_columns cols) = Inr pushed"
    by (auto simp: updateCategoryForIds_Inr)
  have keys: "map fst (clear_columns cols) = map fst cols"
    by (rule keys_clear_columns)
  have "map_of (clear_columns cols) (targetCat cls (clear_columns cols) m) \<noteq> None"
    using push_items_target_own [OF run assms(3)] .
  then have "map_of cols (targetCat cls cols m) \<noteq> None"
    by (simp only: targetCat_keys [OF keys] map_of_keys_None [OF keys] not_False_eq_True)
  then obtain c where c: "map_of cols (targetCat cls cols m) = Some c"
    by blast
  define col' where
    "col' = c\<lparr>items := sortByLikes (Array (routed cls cols (targetCat cls cols m) (all_items cols)))\<rparr>"
  have "cols' = map (\<lambda>(k, c). (k, c\<lparr>items := sortByLikes (Array (routed cls cols k (all_items cols)))\<rparr>)) cols"
    using updateCategoryForIds_columns [OF assms(1,2)] .
  then have "map_of cols' (targetCat cls cols m) = Some col'"
    using c by (simp only: map_of_map_columns col'_def) simp
  moreover have "Obj (assign_sentiment cls m) \<in> set (items col')"
    unfolding col'_def using routed_member [OF assms(3)]
    by (simp add: set_sortByLikes del: sortByLikes.simps)
  ultimately show ?thesis by blast
qed


section \<open>Likes order under the three operations\<close>

lemma board_sorted_update:
  assumes "board_sorted cols" and "likes_sorted (items c')"
  shows "board_sorted (AList.update k c' cols)"
proof -
  have "\<forall>p \<in> set cols. likes_sorted (items (snd p))"
    using assms(1) by (simp add: board_sorted_def list_all_iff case_prod_unfold)
  moreover have "\<forall>p \<in> set (AList.update k c' cols). p = (k, c') \<or> p \<in> set cols"
    using set_update_subset [of k c' cols] by blast
  ultimately have "\<forall>p \<in> set (AList.update k c' cols). likes_sorted (items (snd p))"
    using assms(2) by fastforce
  then show ?thesis
    by (simp add: board_sorted_def list_all_iff case_prod_unfold)
qed

lemma board_sorted_sortAllColumnsByLikes: "board_sorted (sortAllColumnsByLikes cols)"
  by (induction cols)
     (auto simp: board_sorted_def sortAllColumnsByLikes_def likes_sorted_sortByLikes
        simp del: sortByLikes.simps)

lemma board_sorted_lookup:
  "board_sorted cols \<Longrightarrow> map_of cols k = Some c \<Longrightarrow> likes_sorted (items c)"
  by (auto simp: board_sorted_def list_all_iff dest: map_of_SomeD)

lemma sorted_wrt_filter_drop_one:
  "sorted_wrt R (filter P (as @ b # cs)) \<Longrightarrow> sorted_wrt R (filter P (as @ cs))"
  by (auto simp: sorted_wrt_append split: if_splits)

lemma likes_sorted_splice_remove:
  assumes "likes_sorted xs"
  shows "likes_sorted (snd (splice_remove xs i))"
  using splice_remove_cases [of xs i]
proof
  assume "\<exists>k < length xs. splice_remove xs i = (xs ! k, take k xs @ drop (Suc k) xs)"
  then obtain k where k: "k < length xs"
    and eq: "splice_remove xs i = (xs ! k, take k xs @ drop (Suc k) xs)"
    by blast
  have "likes_sorted (take k xs @ xs ! k # drop (Suc k) xs)"
    using assms k by (simp only: id_take_nth_drop [symmetric])
  then have "likes_sorted (take k xs @ drop (Suc k) xs)"
    unfolding likes_sorted_def by (rule sorted_wrt_filter_drop_one)
  with eq show ?thesis by simp
next
  assume "splice_remove xs i = (Undefined, xs)"
  with assms show ?thesis by simp
qed

lemma sorted_addMessages:
  assumes "board_sorted (columns st)" and "addMessages (Array ms) st = Inr st'"
  shows "board_sorted (columns st')
     \<and> (\<forall>key col'. map_of (columns st') key = Some col' \<longrightarrow>
          (\<exists>col. map_of (columns st) key = Some col
             \<and> (\<forall>k. ties k (items col') =
                     ties k (if key = ''uncategorized'' then items col @ ms else items col))))"
proof (cases "ms = []")
  case True
  with assms have "st' = st" by (simp add: addMessages_def)
  with assms(1) True show ?thesis by simp
next
  case False
  with assms(2) obtain unc where
    unc: "map_of (columns st) ''uncategorized'' = Some unc" and
    res: "columns st' = AList.update ''uncategorized''
            (unc\<lparr>items := sortByLikes (Array (items unc @ ms))\<rparr>) (columns st)"
    by (auto simp: addMessages_def Let_def get_property_Own [symmetric]
        simp del: sortByLikes.simps split: property.splits)
  have "board_sorted (columns st')"
    unfolding res using assms(1)
    by (rule board_sorted_update) (simp add: likes_sorted_sortByLikes del: sortByLikes.simps)
  moreover have "\<forall>key col'. map_of (columns st') key = Some col' \<longrightarrow>
          (\<exists>col. map_of (columns st) key = Some col
             \<and> (\<forall>k. ties k (items col') =
                     ties k (if key = ''uncategorized'' then items col @ ms else items col)))"
    unfolding res using unc
    by (auto simp: update_conv' ties_sortByLikes simp del: sortByLikes.simps)
  ultimately show ?thesis by blast
qed

lemma sorted_moveCard:
  assumes "board_sorted cols" and "moveCard source destination cols = Inr cols'"
  shows "board_sorted cols'
     \<and> (cols' = cols
        \<or> (\<exists>dest sc dc dc'.
              destination = Some dest
              \<and> map_of cols (droppableId source) = Some sc
              \<and> map_of cols (droppableId dest) = Some dc
              \<and> map_of cols' (droppableId dest) = Some dc'
              \<and> (\<forall>k. ties k (items dc') =
                     ties k (splice_insert
                       (if droppableId source = droppableId dest
                        then snd (splice_remove (items sc) (index source)) else items dc)
                       (index dest) (fst (splice_remove (items sc) (index source)))))
              \<and> (droppableId source \<noteq> droppableId dest \<longrightarrow>
                    map_of cols' (droppableId source) =
                      Some (sc\<lparr>items := snd (splice_remove (items sc) (index source))\<rparr>))
              \<and> (\<forall>key. key \<noteq> droppableId source \<and> key \<noteq> droppableId dest \<longrightarrow>
                    map_of cols' key = map_of cols key)))"
  using assms(2)
proof (cases rule: moveCard_Inr)
  case unchanged
  with assms(1) show ?thesis by simp
next
  case (moved dest sc dc)
  define x where "x = fst (splice_remove (items sc) (index source))"
  define rest where "rest = snd (splice_remove (items sc) (index source))"
  define D where "D = splice_insert (if droppableId source = droppableId dest then rest else items dc)
                        (index dest) x"
  define mid where "mid = AList.update (droppableId source)
     (sc\<lparr>items := (if droppableId source = droppableId dest then D else rest)\<rparr>) cols"
  define dc' where "dc' = dc\<lparr>items := sortByLikes (Array D)\<rparr>"
  have res: "cols' = AList.update (droppableId dest) dc' mid"
    using moved(4)
    by (simp add: dc'_def mid_def D_def x_def rest_def del: sortByLikes.simps)
  have rest_sorted: "likes_sorted rest"
    unfolding rest_def
    using board_sorted_lookup [OF assms(1) moved(2)] by (rule likes_sorted_splice_remove)
  have sorted: "board_sorted cols'"
  proof (cases "droppableId source = droppableId dest")
    case True
    then have "cols' = AList.update (droppableId dest) dc' cols"
      by (simp add: res mid_def)
    then show ?thesis
      using assms(1) by (simp add: board_sorted_update dc'_def likes_sorted_sortByLikes
          del: sortByLikes.simps)
  next
    case False
    then have "board_sorted mid"
      unfolding mid_def using assms(1) rest_sorted by (simp add: board_sorted_update)
    then show ?thesis
      unfolding res
      by (rule board_sorted_update) (simp add: dc'_def likes_sorted_sortByLikes del: sortByLikes.simps)
  qed
  have lookup: "map_of cols' (droppableId dest) = Some dc'"
    by (simp add: res update_conv')
  have ties: "\<forall>k. ties k (items dc') = ties k D"
    by (simp add: dc'_def ties_sortByLikes del: sortByLikes.simps)
  have src: "droppableId source \<noteq> droppableId dest \<longrightarrow>
        map_of cols' (droppableId source) = Some (sc\<lparr>items := rest\<rparr>)"
    by (simp add: res mid_def update_conv')
  have others: "\<forall>key. key \<noteq> droppableId source \<and> key \<noteq> droppableId dest \<longrightarrow>
        map_of cols' key = map_of cols key"
    by (simp add: res mid_def update_conv')
  from moved(1,2,3) lookup ties src others sorted show ?thesis
    unfolding D_def x_def rest_def by blast
qed

lemma sorted_updateCategoryForIds:
  assumes "has_own_keys cols" and "updateCategoryForIds cls cols = Inr cols'"
  shows "board_sorted cols'
     \<and> (\<forall>key col'. map_of cols' key = Some col' \<longrightarrow>
           (\<forall>k. ties k (items col') = ties k (routed cls cols key (all_items cols))))"
proof -
  have "board_sorted cols'"
    using assms(2) by (auto simp: updateCategoryForIds_Inr board_sorted_sortAllColumnsByLikes)
  moreover have "\<forall>key col'. map_of cols' key = Some col' \<longrightarrow>
           (\<forall>k. ties k (items col') = ties k (routed cls cols key (all_items cols)))"
    unfolding updateCategoryForIds_columns [OF assms]
    by (auto simp: map_of_map_columns ties_sortByLikes simp del: sortByLikes.simps)
  ultimately show ?thesis by blast
qed

section \<open>When the operations complete\<close>

lemma addMessages_completes:
  "map_of (columns st) ''uncategorized'' \<noteq> None \<Longrightarrow> \<exists>st'. addMessages msgs st = Inr st'"
  by (cases msgs) (auto simp: addMessages_def Let_def get_property_def)

lemma moveCard_completes:
  assumes "droppableId source \<notin> set object_prototype_names \<or> map_of cols (droppableId source) \<noteq> None"
    and "\<forall>dest. destination = Some dest \<longrightarrow>
           droppableId dest \<notin> set object_prototype_names \<or> map_of cols (droppableId dest) \<noteq> None"
  shows "\<exists>cols'. moveCard source destination cols = Inr cols'"
proof (cases destination)
  case None
  then show ?thesis by (simp add: moveCard_def)
next
  case (Some dest)
  have "get_property cols (droppableId source) \<noteq> Inherited"
    using assms(1) by (auto simp: get_property_def split: option.splits)
  moreover have "get_property cols (droppableId dest) \<noteq> Inherited"
    using assms(2) Some by (auto simp: get_property_def split: option.splits)
  ultimately show ?thesis
    using Some
    by (cases "get_property cols (droppableId source)"; cases "get_property cols (droppableId dest)")
       (simp_all add: moveCard_def Let_def case_prod_unfold del: sortByLikes.simps)
qed

lemma push_items_completes:
  "list_all is_object xs \<Longrightarrow>
   \<forall>m. Obj m \<in> set xs \<longrightarrow> map_of cols (targetCat cls cols m) \<noteq> None \<Longrightarrow>
   \<exists>cols'. push_items cls xs cols = Inr cols'"
proof (induction xs arbitrary: cols)
  case Nil
  show ?case by simp
next
  case (Cons x xs)
  from Cons.prems(1) obtain m where x: "x = Obj m"
    by (cases x) simp_all
  from Cons.prems(2) x obtain col where col: "map_of cols (targetCat cls cols m) = Some col"
    by auto
  define nxt where "nxt = AList.update (targetCat cls cols m)
               (col\<lparr>items := items col @ [Obj (assign_sentiment cls m)]\<rparr>) cols"
  have keys: "map fst nxt = map fst cols"
    unfolding nxt_def using col by (rule keys_update)
  have "\<forall>m. Obj m \<in> set xs \<longrightarrow> map_of nxt (targetCat cls nxt m) \<noteq> None"
    using Cons.prems(2)
    by (simp only: targetCat_keys [OF keys] map_of_keys_None [OF keys]) simp
  with Cons.IH [of nxt] Cons.prems(1) obtain cols' where "push_items cls xs nxt = Inr cols'"
    by auto
  then show ?case
    using x col by (simp add: nxt_def get_property_def)
qed

lemma updateCategoryForIds_completes:
  assumes "list_all is_object (all_items cols)"
    and "\<forall>m. Obj m \<in> set (all_items cols) \<longrightarrow> map_of cols (targetCat cls cols m) \<noteq> None"
  shows "\<exists>cols'. updateCategoryForIds cls cols = Inr cols'"
proof -
  have keys: "map fst (clear_columns cols) = map fst cols"
    by (rule keys_clear_columns)
  have "\<forall>m. Obj m \<in> set (all_items cols) \<longrightarrow>
          map_of (clear_columns cols) (targetCat cls (clear_columns cols) m) \<noteq> None"
    using assms(2) by (simp only: targetCat_keys [OF keys] map_of_keys_None [OF keys])
  with assms(1) obtain pushed where
    "push_items cls (all_items cols) (clear_columns cols) = Inr pushed"
    using push_items_completes by blast
  then show ?thesis
    by (simp add: updateCategoryForIds_def)
qed

text \<open>
  The target of a record is an own column when the board has the column \<open>uncategorized\<close>
  and the lowercased category of the record's entry is a column or is not a name that
  every object inherits.
\<close>

lemma targetCat_own:
  assumes "map_of cols ''uncategorized'' \<noteq> None"
    and "\<forall>r c. cls (item_id m) = Some r \<and> category r = Some c \<longrightarrow>
           toLowerCase c \<notin> set object_prototype_names \<or> map_of cols (toLowerCase c) \<noteq> None"
  shows "map_of cols (targetCat cls cols m) \<noteq> None"
proof (cases "cls (item_id m)")
  case None
  with assms(1) show ?thesis by (simp add: targetCat_def)
next
  case (Some r)
  show ?thesis
  proof (cases "category r")
    case None
    with Some assms(1) show ?thesis by (simp add: targetCat_def target_of_def)
  next
    case (Some c)
    with \<open>cls (item_id m) = Some r\<close> assms show ?thesis
      by (auto simp: targetCat_def target_of_def get_property_def Let_def split: option.splits)
  qed
qed

lemma moveCard_unknown_column_unchanged:
  assumes "get_property cols (droppableId source) = Absent
           \<or> get_property cols (droppableId dest) = Absent"
  shows "moveCard source (Some dest) cols = Inr cols"
  using assms by (auto simp: moveCard_def Let_def)

lemma moveCard_same_place_unchanged:
  "droppableId source = droppableId dest \<Longrightarrow> index source = index dest \<Longrightarrow>
   moveCard source (Some dest) cols = Inr cols"
  by (simp add: moveCard_def)

lemma updateCategoryForIds_keeps_every_record:
  assumes "list_all is_object (all_items cols)"
    and "\<forall>m. Obj m \<in> set (all_items cols) \<longrightarrow> map_of cols (targetCat cls cols m) \<noteq> None"
  shows "\<exists>cols'. updateCategoryForIds cls cols = Inr cols'
           \<and> mset (all_items cols') = mset (map (reclassified cls) (all_items cols))
           \<and> map fst cols' = map fst cols"
proof -
  obtain cols' where run: "updateCategoryForIds cls cols = Inr cols'"
    using updateCategoryForIds_completes [OF assms] by blast
  then obtain pushed where
    p: "push_items cls (all_items cols) (clear_columns cols) = Inr pushed" and
    res: "cols' = sortAllColumnsByLikes pushed"
    by (auto simp: updateCategoryForIds_Inr)
  have "map fst cols' = map fst cols"
    using keys_push_items [OF p]
    by (simp add: res sortAllColumnsByLikes_def case_prod_unfold keys_clear_columns comp_def)
  with run mset_updateCategoryForIds [OF run] show ?thesis by blast
qed

section \<open>Classification and the records of the board\<close>

text \<open>
  Claim C1. A classification pass that completes keeps every record
  (\<open>updateCategoryForIds_keeps_every_record\<close>), but the pass does not complete for every
  classification: a category whose lowercased name is a property every object inherits
  (\<open>constructor\<close>, \<open>__proto__\<close>) passes the test \<open>newColumns[assignedCat]\<close>, and the push
  onto it throws. Here record 2 is classified as \<open>constructor\<close>: the call throws after the
  columns were emptied in place and record 1 was pushed back, so of the three records of
  the board only record 1 is left in a column.
\<close>

theorem updateCategoryForIds_inherited_name_drops_records:
  "updateCategoryForIds
     [2 \<mapsto> \<lparr>category = Some ''constructor'', sentiment = Some ''question''\<rparr>]
     (demo_board [demo 1 (JNum 5) None, demo 2 (JNum 3) None] [demo 3 (JNum 1) None] []) =
   Inl (TypeError, demo_board [demo 1 (JNum 5) None] [] [])
   \<and> all_items (demo_board [demo 1 (JNum 5) None, demo 2 (JNum 3) None] [demo 3 (JNum 1) None] []) =
       [demo 1 (JNum 5) None, demo 2 (JNum 3) None, demo 3 (JNum 1) None]
   \<and> all_items (demo_board [demo 1 (JNum 5) None] [] []) = [demo 1 (JNum 5) None]"
  by code_simp

section \<open>Uniqueness of ids\<close>

text \<open>
  Claim C2, amended. Board-wide uniqueness of ids is kept by \<open>moveCard\<close> and by
  \<open>updateCategoryForIds\<close>, also by a pass that throws midway (the columns it leaves hold a
  part of the records that were there). \<open>addMessages\<close> keeps it if and only if the ids of
  the new messages are pairwise distinct and none of them is on the board already: it
  appends the new messages without comparing ids.
\<close>

theorem id_uniqueness_under_the_three_operations:
  "(ids_unique (columns st) \<and> addMessages (Array ms) st = Inr st' \<longrightarrow>
      (ids_unique (columns st') \<longleftrightarrow>
         distinct (ids_of ms) \<and> set (ids_of ms) \<inter> set (board_ids (columns st)) = {}))
   \<and> (ids_unique cols \<and> moveCard source destination cols = Inr cols' \<longrightarrow> ids_unique cols')
   \<and> (ids_unique cols \<and> updateCategoryForIds cls cols = Inr cols'' \<longrightarrow> ids_unique cols'')
   \<and> (ids_unique cols \<and> updateCategoryForIds cls cols = Inl (e, left) \<longrightarrow> ids_unique left)"
proof (intro conjI impI)
  assume a: "ids_unique (columns st) \<and> addMessages (Array ms) st = Inr st'"
  then have "mset (board_ids (columns st')) = mset (board_ids (columns st) @ ids_of ms)"
    using board_ids_addMessages by simp
  then have "distinct (board_ids (columns st')) \<longleftrightarrow> distinct (board_ids (columns st) @ ids_of ms)"
    by (rule mset_eq_imp_distinct_iff)
  with a show "ids_unique (columns st') \<longleftrightarrow>
         distinct (ids_of ms) \<and> set (ids_of ms) \<inter> set (board_ids (columns st)) = {}"
    by (auto simp: ids_unique_def)
next
  assume a: "ids_unique cols \<and> moveCard source destination cols = Inr cols'"
  then have "distinct (board_ids cols') \<longleftrightarrow> distinct (board_ids cols)"
    using board_ids_moveCard mset_eq_imp_distinct_iff by blast
  with a show "ids_unique cols'"
    by (simp add: ids_unique_def)
next
  assume a: "ids_unique cols \<and> updateCategoryForIds cls cols = Inr cols''"
  then have "distinct (board_ids cols'') \<longleftrightarrow> distinct (board_ids cols)"
    using board_ids_updateCategoryForIds mset_eq_imp_distinct_iff by blast
  with a show "ids_unique cols''"
    by (simp add: ids_unique_def)
next
  assume a: "ids_unique cols \<and> updateCategoryForIds cls cols = Inl (e, left)"
  then have "mset (board_ids left) \<subseteq># mset (board_ids cols)"
    using board_ids_updateCategoryForIds_interrupted by blast
  with a show "ids_unique left"
    unfolding ids_unique_def using distinct_mset_subseteq by blast
qed

theorem id_uniqueness_under_the_three_operations_witness:
  "ids_unique (demo_board [demo 2 (JNum 7) None, demo 1 (JNum 5) None] [] [])
   \<and> ids_unique (demo_board [demo 2 (JNum 3) None] [demo 1 (JNum 5) None, demo 3 (JNum 1) None] [])
   \<and> ids_unique (demo_board [demo 1 (JNum 5) None, demo 2 (JNum 3) None] []
                    [demo 3 (JNum 1) (Some ''positive'')])
   \<and> ids_unique (demo_board [demo 1 (JNum 5) None] [] [])"
proof -
  let ?st = "initial_state\<lparr>columns := demo_board [demo 1 (JNum 5) None] [] []\<rparr>"
  let ?st' = "initial_state
            \<lparr> columns := demo_board [demo 2 (JNum 7) None, demo 1 (JNum 5) None] [] [],
              rawData := [demo 2 (JNum 7) None],
              setItem_calls := [(RAW_DATA_KEY, StoredRaw [demo 2 (JNum 7) None])] \<rparr>"
  let ?cols = "demo_board [demo 1 (JNum 5) None, demo 2 (JNum 3) None] [demo 3 (JNum 1) None] []"
  have ingest: "ids_unique (columns ?st)
      \<and> addMessages (Array [demo 2 (JNum 7) None]) ?st = Inr ?st'"
    by code_simp
  have fresh: "distinct (ids_of [demo 2 (JNum 7) None])
      \<and> set (ids_of [demo 2 (JNum 7) None]) \<inter> set (board_ids (columns ?st)) = {}"
    by code_simp
  have move: "ids_unique ?cols
      \<and> moveCard \<lparr>droppableId = ''uncategorized'', index = 0\<rparr>
           (Some \<lparr>droppableId = ''library'', index = 1\<rparr>) ?cols =
         Inr (demo_board [demo 2 (JNum 3) None] [demo 1 (JNum 5) None, demo 3 (JNum 1) None] [])"
    by code_simp
  have classify: "ids_unique ?cols
      \<and> updateCategoryForIds [3 \<mapsto> \<lparr>category = Some ''AI'', sentiment = Some ''positive''\<rparr>] ?cols =
         Inr (demo_board [demo 1 (JNum 5) None, demo 2 (JNum 3) None] []
                [demo 3 (JNum 1) (Some ''positive'')])"
    by code_simp
  have interrupted: "ids_unique ?cols
      \<and> updateCategoryForIds
           [2 \<mapsto> \<lparr>category = Some ''constructor'', sentiment = Some ''question''\<rparr>] ?cols =
         Inl (TypeError, demo_board [demo 1 (JNum 5) None] [] [])"
    by code_simp
  from id_uniqueness_under_the_three_operations
    [where st = ?st and ms = "[demo 2 (JNum 7) None]" and st' = ?st' and cols = ?cols
       and source = "\<lparr>droppableId = ''uncategorized'', index = 0\<rparr>"
       and destination = "Some \<lparr>droppableId = ''library'', index = 1\<rparr>"
       and cols' = "demo_board [demo 2 (JNum 3) None]
                      [demo 1 (JNum 5) None, demo 3 (JNum 1) None] []"
       and cls = "[3 \<mapsto> \<lparr>category = Some ''AI'', sentiment = Some ''positive''\<rparr>]"
       and cols'' = "demo_board [demo 1 (JNum 5) None, demo 2 (JNum 3) None] []
                       [demo 3 (JNum 1) (Some ''positive'')]"]
    ingest fresh move classify
  have first: "ids_unique (demo_board [demo 2 (JNum 7) None, demo 1 (JNum 5) None] [] [])
   \<and> ids_unique (demo_board [demo 2 (JNum 3) None] [demo 1 (JNum 5) None, demo 3 (JNum 1) None] [])
   \<and> ids_unique (demo_board [demo 1 (JNum 5) None, demo 2 (JNum 3) None] []
                    [demo 3 (JNum 1) (Some ''positive'')])"
    by simp
  from id_uniqueness_under_the_three_operations
    [where cols = ?cols
       and cls = "[2 \<mapsto> \<lparr>category = Some ''constructor'', sentiment = Some ''question''\<rparr>]"
       and e = TypeError and left = "demo_board [demo 1 (JNum 5) None] [] []"]
    interrupted
  have "ids_unique (demo_board [demo 1 (JNum 5) None] [] [])"
    by blast
  with first show ?thesis by blast
qed

text \<open>
  As stated for every ingest the claim fails: two batches that both carry the id 1 (every
  extraction numbers its messages from 1) leave two records with id 1 in \<open>uncategorized\<close>.
\<close>

theorem addMessages_same_id_twice:
  "addMessages (Array [demo 1 (JNum 5) None]) initial_state =
      Inr (initial_state
            \<lparr> columns := demo_board [demo 1 (JNum 5) None] [] [],
              rawData := [demo 1 (JNum 5) None],
              setItem_calls := [(RAW_DATA_KEY, StoredRaw [demo 1 (JNum 5) None])] \<rparr>)
   \<and> ids_unique (demo_board [demo 1 (JNum 5) None] [] [])
   \<and> addMessages (Array [demo 1 (JNum 2) None])
        (initial_state
            \<lparr> columns := demo_board [demo 1 (JNum 5) None] [] [],
              rawData := [demo 1 (JNum 5) None],
              setItem_calls := [(RAW_DATA_KEY, StoredRaw [demo 1 (JNum 5) None])] \<rparr>) =
      Inr (initial_state
            \<lparr> columns := demo_board [demo 1 (JNum 5) None, demo 1 (JNum 2) None] [] [],
              rawData := [demo 1 (JNum 5) None, demo 1 (JNum 2) None],
              setItem_calls :=
                [(RAW_DATA_KEY, StoredRaw [demo 1 (JNum 5) None]),
                 (RAW_DATA_KEY, StoredRaw [demo 1 (JNum 5) None, demo 1 (JNum 2) None])] \<rparr>)
   \<and> \<not> ids_unique (demo_board [demo 1 (JNum 5) None, demo 1 (JNum 2) None] [] [])"
  by code_simp

section \<open>moveCard with a source index out of range\<close>

text \<open>
  Claim C3. An unknown column id leaves the board unchanged
  (\<open>moveCard_unknown_column_unchanged\<close>), but the source index is never checked. With
  two items in the source column, source index 7 removes nothing and the destination
  receives an \<open>undefined\<close> item; source index \<open>-1\<close> moves the last item of the source
  column. In both cases the board changes.
\<close>

theorem moveCard_source_index_out_of_bounds_changes_board:
  "moveCard \<lparr>droppableId = ''uncategorized'', index = 7\<rparr>
            (Some \<lparr>droppableId = ''library'', index = 0\<rparr>)
     (demo_board [demo 1 (JNum 5) None, demo 2 (JNum 3) None] [demo 3 (JNum 1) None] []) =
   Inr (demo_board [demo 1 (JNum 5) None, demo 2 (JNum 3) None] [demo 3 (JNum 1) None, Undefined] [])
   \<and> moveCard \<lparr>droppableId = ''uncategorized'', index = - 1\<rparr>
            (Some \<lparr>droppableId = ''library'', index = 0\<rparr>)
     (demo_board [demo 1 (JNum 5) None, demo 2 (JNum 3) None] [demo 3 (JNum 1) None] []) =
   Inr (demo_board [demo 1 (JNum 5) None] [demo 2 (JNum 3) None, demo 3 (JNum 1) None] [])"
  by code_simp

theorem moveCard_source_index_out_of_bounds_changes_board_witness:
  "moveCard \<lparr>droppableId = ''uncategorized'', index = 7\<rparr>
            (Some \<lparr>droppableId = ''library'', index = 0\<rparr>)
     (demo_board [demo 1 (JNum 5) None, demo 2 (JNum 3) None] [demo 3 (JNum 1) None] []) \<noteq>
   Inr (demo_board [demo 1 (JNum 5) None, demo 2 (JNum 3) None] [demo 3 (JNum 1) None] [])"
  using moveCard_source_index_out_of_bounds_changes_board
  by (simp add: demo_board_def)

section \<open>Classification entries with a missing field\<close>

text \<open>
  Claim C4, amended. In a completed classification pass the two fields of an entry are
  applied independently of each other. A record whose id has an entry gets the entry's
  sentiment (no sentiment when the entry has none) and lands in the column
  \<open>target_of\<close> computes from the entry: \<open>uncategorized\<close> when the entry has no category,
  the lowercased category when it names a column. A record whose id has no entry keeps
  its sentiment and lands in \<open>uncategorized\<close>.
\<close>

theorem classification_fields_applied_independently:
  assumes "has_own_keys cols" and "updateCategoryForIds cls cols = Inr cols'"
    and "Obj m \<in> set (all_items cols)"
  shows "(\<forall>r. cls (item_id m) = Some r \<longrightarrow>
            (\<exists>col'. map_of cols' (target_of cols r) = Some col'
                \<and> Obj (m\<lparr>item_sentiment := sentiment r\<rparr>) \<in> set (items col'))
            \<and> (category r = None \<longrightarrow> target_of cols r = ''uncategorized'')
            \<and> (\<forall>c. category r = Some c \<and> c \<noteq> [] \<and> map_of cols (toLowerCase c) \<noteq> None
                  \<longrightarrow> target_of cols r = toLowerCase c))
       \<and> (cls (item_id m) = None \<longrightarrow>
            (\<exists>col'. map_of cols' ''uncategorized'' = Some col' \<and> Obj m \<in> set (items col')))"
proof (intro conjI allI impI)
  fix r assume r: "cls (item_id m) = Some r"
  then show "\<exists>col'. map_of cols' (target_of cols r) = Some col'
                \<and> Obj (m\<lparr>item_sentiment := sentiment r\<rparr>) \<in> set (items col')"
    using updateCategoryForIds_places [OF assms, of ]
    by (simp add: targetCat_def assign_sentiment_def)
next
  fix r assume "cls (item_id m) = Some r" "category r = None"
  then show "target_of cols r = ''uncategorized''"
    by (simp add: target_of_def)
next
  fix r c assume "cls (item_id m) = Some r"
    and "category r = Some c \<and> c \<noteq> [] \<and> map_of cols (toLowerCase c) \<noteq> None"
  then show "target_of cols r = toLowerCase c"
    by (auto simp: target_of_def get_property_def)
next
  assume "cls (item_id m) = None"
  then show "\<exists>col'. map_of cols' ''uncategorized'' = Some col' \<and> Obj m \<in> set (items col')"
    using updateCategoryForIds_places [OF assms]
    by (simp add: targetCat_def assign_sentiment_def)
qed

theorem classification_fields_applied_independently_witness:
  "target_of (demo_board [demo 1 (JNum 5) (Some ''positive'')] [] [])
      \<lparr>category = Some ''AI'', sentiment = None\<rparr> = ''ai''
   \<and> (\<exists>col'. map_of (demo_board [] [] [demo 1 (JNum 5) None]) ''ai'' = Some col'
         \<and> demo 1 (JNum 5) None \<in> set (items col'))"
proof -
  let ?cols = "demo_board [demo 1 (JNum 5) (Some ''positive'')] [] []"
  let ?cls = "[1 \<mapsto> \<lparr>category = Some ''AI'', sentiment = None\<rparr>]"
  let ?m = "\<lparr> item_id = 1, item_timestamp = ''09 December 2025 19:07'', item_message = ''hello'',
           item_likes = JNum 5, item_sentiment = Some ''positive'' \<rparr>"
  have h1: "has_own_keys ?cols" by code_simp
  have h2: "updateCategoryForIds ?cls ?cols = Inr (demo_board [] [] [demo 1 (JNum 5) None])"
    by code_simp
  have h3: "Obj ?m \<in> set (all_items ?cols)" by code_simp
  have t: "target_of ?cols \<lparr>category = Some ''AI'', sentiment = None\<rparr> = ''ai''"
    by code_simp
  from classification_fields_applied_independently [OF h1 h2 h3]
  have "\<exists>col'. map_of (demo_board [] [] [demo 1 (JNum 5) None])
                 (target_of ?cols \<lparr>category = Some ''AI'', sentiment = None\<rparr>) = Some col'
            \<and> Obj (?m\<lparr>item_sentiment := None\<rparr>) \<in> set (items col')"
    by simp
  with t show ?thesis
    by (simp add: demo_def)
qed

text \<open>
  As stated the claim fails: the entry of record 1 has a category and no sentiment, and
  record 1 lands in \<open>ai\<close> with its sentiment removed; the entry of record 2 has a
  sentiment and no category, and record 2 lands in \<open>uncategorized\<close> with the new
  sentiment. Neither record keeps the sentiment it had.
\<close>

theorem updateCategoryForIds_entry_without_sentiment:
  "updateCategoryForIds
     [1 \<mapsto> \<lparr>category = Some ''AI'', sentiment = None\<rparr>,
      2 \<mapsto> \<lparr>category = None, sentiment = Some ''question''\<rparr>]
     (demo_board [demo 1 (JNum 5) (Some ''positive''), demo 2 (JNum 3) (Some ''negative'')] [] []) =
   Inr (demo_board [demo 2 (JNum 3) (Some ''question'')] [] [demo 1 (JNum 5) None])
   \<and> demo 1 (JNum 5) (Some ''positive'') \<notin>
        set (all_items (demo_board [demo 2 (JNum 3) (Some ''question'')] [] [demo 1 (JNum 5) None]))
   \<and> demo 2 (JNum 3) (Some ''negative'') \<notin>
        set (all_items (demo_board [demo 2 (JNum 3) (Some ''question'')] [] [demo 1 (JNum 5) None]))"
  by code_simp

section \<open>Likes order as an invariant\<close>

text \<open>
  When every column of the board is in likes order, every column is in likes order again
  after \<open>addMessages\<close>, after \<open>moveCard\<close> and after an \<open>updateCategoryForIds\<close> that
  completes, and ties keep their prior order: the re-sorted column has, for
  every likes value, the same items in the same order as the list that was sorted (the
  old items of \<open>uncategorized\<close> followed by the new messages; the destination column with
  the card inserted at the destination index; the records routed to a column, in the
  order in which they were gathered); the source column of a move loses the moved card
  and every other column is unchanged.
\<close>

lemma likes_order_kept_by_completed_operations:
  "(board_sorted (columns st) \<and> addMessages (Array ms) st = Inr st' \<longrightarrow>
      board_sorted (columns st')
      \<and> (\<forall>key col'. map_of (columns st') key = Some col' \<longrightarrow>
            (\<exists>col. map_of (columns st) key = Some col
               \<and> (\<forall>k. ties k (items col') =
                       ties k (if key = ''uncategorized'' then items col @ ms else items col)))))
   \<and> (board_sorted cols \<and> moveCard source destination cols = Inr cols' \<longrightarrow>
      board_sorted cols'
      \<and> (cols' = cols
         \<or> (\<exists>dest sc dc dc'.
              destination = Some dest
              \<and> map_of cols (droppableId source) = Some sc
              \<and> map_of cols (droppableId dest) = Some dc
              \<and> map_of cols' (droppableId dest) = Some dc'
              \<and> (\<forall>k. ties k (items dc') =
                     ties k (splice_insert
                       (if droppableId source = droppableId dest
                        then snd (splice_remove (items sc) (index source)) else items dc)
                       (index dest) (fst (splice_remove (items sc) (index source)))))
              \<and> (droppableId source \<noteq> droppableId dest \<longrightarrow>
                    map_of cols' (droppableId source) =
                      Some (sc\<lparr>items := snd (splice_remove (items sc) (index source))\<rparr>))
              \<and> (\<forall>key. key \<noteq> droppableId source \<and> key \<noteq> droppableId dest \<longrightarrow>
                    map_of cols' key = map_of cols key))))
   \<and> (has_own_keys cols \<and> updateCategoryForIds cls cols = Inr cols'' \<longrightarrow>
      board_sorted cols''
      \<and> (\<forall>key col'. map_of cols'' key = Some col' \<longrightarrow>
            (\<forall>k. ties k (items col') = ties k (routed cls cols key (all_items cols)))))"
  using sorted_addMessages [of st ms st'] sorted_moveCard [of cols source destination cols']
    sorted_updateCategoryForIds [of cols cls cols'']
  by (intro conjI impI; elim conjE) blast+

lemma likes_order_kept_by_completed_operations_example:
  "board_sorted (demo_board [demo 2 (JNum 7) None, demo 1 (JNum 5) None, demo 4 (JNum 5) None] [] [])
   \<and> board_sorted (demo_board [demo 2 (JNum 3) None]
                      [demo 1 (JNum 5) None, demo 3 (JNum 1) None] [])
   \<and> board_sorted (demo_board [demo 1 (JNum 5) None] []
                      [demo 2 (JNum 3) (Some ''question''), demo 3 (JNum 1) (Some ''positive'')])"
proof -
  let ?st = "initial_state\<lparr>columns := demo_board [demo 1 (JNum 5) None, demo 4 (JNum 5) None] [] []\<rparr>"
  let ?st' = "initial_state
      \<lparr> columns := demo_board [demo 2 (JNum 7) None, demo 1 (JNum 5) None, demo 4 (JNum 5) None] [] [],
        rawData := [demo 2 (JNum 7) None],
        setItem_calls := [(RAW_DATA_KEY, StoredRaw [demo 2 (JNum 7) None])] \<rparr>"
  let ?cols = "demo_board [demo 1 (JNum 5) None, demo 2 (JNum 3) None] [demo 3 (JNum 1) None] []"
  let ?cls = "[3 \<mapsto> \<lparr>category = Some ''AI'', sentiment = Some ''positive''\<rparr>,
               2 \<mapsto> \<lparr>category = Some ''ai'', sentiment = Some ''question''\<rparr>]"
  have ingest: "board_sorted (columns ?st) \<and> addMessages (Array [demo 2 (JNum 7) None]) ?st = Inr ?st'"
    by code_simp
  have move: "board_sorted ?cols
      \<and> moveCard \<lparr>droppableId = ''uncategorized'', index = 0\<rparr>
           (Some \<lparr>droppableId = ''library'', index = 1\<rparr>) ?cols =
         Inr (demo_board [demo 2 (JNum 3) None] [demo 1 (JNum 5) None, demo 3 (JNum 1) None] [])"
    by code_simp
  have classify: "has_own_keys ?cols
      \<and> updateCategoryForIds ?cls ?cols =
         Inr (demo_board [demo 1 (JNum 5) None] []
                [demo 2 (JNum 3) (Some ''question''), demo 3 (JNum 1) (Some ''positive'')])"
    by code_simp
  from likes_order_kept_by_completed_operations
    [of ?st "[demo 2 (JNum 7) None]" ?st' ?cols "\<lparr>droppableId = ''uncategorized'', index = 0\<rparr>"
        "Some \<lparr>droppableId = ''library'', index = 1\<rparr>"
        "demo_board [demo 2 (JNum 3) None] [demo 1 (JNum 5) None, demo 3 (JNum 1) None] []"
        ?cls
        "demo_board [demo 1 (JNum 5) None] []
                [demo 2 (JNum 3) (Some ''question''), demo 3 (JNum 1) (Some ''positive'')]"]
    ingest move classify
  show ?thesis by simp
qed

text \<open>
  Claim C6. The likes order is not kept by every classification pass: a pass that throws
  midway leaves the columns as its loop filled them, unsorted. Here every column of the
  board is in likes order and record 3 is classified as \<open>constructor\<close>, a name every object
  inherits. The pass empties the columns in place, pushes record 1 (likes 1) and record 2
  (likes 9) onto \<open>uncategorized\<close> in the order in which they were gathered, and throws at
  record 3, before the final sort: \<open>uncategorized\<close> is left as record 1, record 2, which
  is not in likes order.
\<close>

theorem updateCategoryForIds_interrupted_leaves_unsorted_column:
  "board_sorted (demo_board [demo 1 (JNum 1) None] [demo 2 (JNum 9) None, demo 3 (JNum 3) None] [])
   \<and> updateCategoryForIds
        [3 \<mapsto> \<lparr>category = Some ''constructor'', sentiment = Some ''neutral''\<rparr>]
        (demo_board [demo 1 (JNum 1) None] [demo 2 (JNum 9) None, demo 3 (JNum 3) None] []) =
      Inl (TypeError, demo_board [demo 1 (JNum 1) None, demo 2 (JNum 9) None] [] [])
   \<and> \<not> board_sorted (demo_board [demo 1 (JNum 1) None, demo 2 (JNum 9) None] [] [])"
  by code_simp

end
